theory Spec2Isabelle
  imports Main
begin

section \<open>The queued Expo push proxy (expo_push_proxy.js, queued variant)\<close>

text \<open>
  Line numbers are those of \<open>src/expo_push_proxy.js\<close>; the model is of the variant
  with the queue (lines 120-275).  The intervals of the configuration are integers.

  The program is a single-threaded Node.js server.  Its module-level variables
  (\<open>queue\<close>, \<open>sending\<close>, \<open>lastSent\<close>) become fields of a state record, every
  \<open>await\<close> becomes a suspended continuation stored in the state, and the event loop
  becomes a step function over the events the environment can deliver: the clock
  advancing, a timer firing, an outbound fetch settling, and a call of \<open>enqueue\<close>.
  Whatever the code does between two \<open>await\<close>s happens inside one step.
\<close>

subsection \<open>JavaScript values\<close>

text \<open>
  The values \<open>JSON.parse\<close> can produce, plus \<open>undefined\<close> (the result of reading
  a missing property).  A number is kept as an integer: the code only tests numbers
  for truthiness.  An object is its list of own properties.
\<close>

datatype jsval =
    JUndefined
  | JNull
  | JBool bool
  | JNum int
  | JStr string
  | JArr "jsval list"
  | JObj "(string \<times> jsval) list"

datatype js_error =
    TypeError string
  | Error string
  | SyntaxError string

fun message :: "js_error \<Rightarrow> string" where
  "message (TypeError m) = m"
| "message (Error m) = m"
| "message (SyntaxError m) = m"

text \<open>\<open>Boolean(v)\<close>, the test behind \<open>!v\<close>, \<open>v || d\<close> and \<open>filter(Boolean)\<close>.\<close>

fun truthy :: "jsval \<Rightarrow> bool" where
  "truthy JUndefined = False"
| "truthy JNull = False"
| "truthy (JBool b) = b"
| "truthy (JNum n) = (n \<noteq> 0)"
| "truthy (JStr s) = (s \<noteq> [])"
| "truthy (JArr xs) = True"
| "truthy (JObj kvs) = True"

definition js_or :: "jsval \<Rightarrow> jsval \<Rightarrow> jsval" where
  "js_or v d = (if truthy v then v else d)"

text \<open>
  \<open>v.k\<close> for the keys the handler reads (\<open>to\<close>, \<open>title\<close>, \<open>body\<close>, \<open>data\<close>,
  \<open>sound\<close>, \<open>channelId\<close>): none of them is a built-in property of a string, number,
  boolean or array, so only objects can hold them; reading a property of \<open>null\<close> or
  \<open>undefined\<close> throws.
\<close>

fun get_prop :: "jsval \<Rightarrow> string \<Rightarrow> js_error + jsval" where
  "get_prop JUndefined k =
     Inl (TypeError (''Cannot read properties of undefined (reading ''
                     @ [CHR 0x27] @ k @ [CHR 0x27] @ '')''))"
| "get_prop JNull k =
     Inl (TypeError (''Cannot read properties of null (reading ''
                     @ [CHR 0x27] @ k @ [CHR 0x27] @ '')''))"
| "get_prop (JObj kvs) k = Inr (case map_of kvs k of None \<Rightarrow> JUndefined | Some v \<Rightarrow> v)"
| "get_prop v k = Inr JUndefined"

subsection \<open>Configuration, payloads and queue items\<close>

record config =
  MIN_INTERVAL_MS :: int
  STAGGER_MS :: int

record payload =
  title :: jsval
  body :: jsval
  data :: jsval
  sound :: jsval
  channelId :: jsval
  priority :: jsval

record item =
  token :: jsval
  payload :: payload

text \<open>\<open>normalizeTokens\<close> (lines 139-143).\<close>

definition normalizeTokens :: "jsval \<Rightarrow> jsval list" where
  "normalizeTokens to =
     (if \<not> truthy to then []
      else case to of JArr xs \<Rightarrow> filter truthy xs | _ \<Rightarrow> [to])"

subsection \<open>The delivery client\<close>

text \<open>
  \<open>sendToExpo\<close> (lines 145-170) runs in two parts.  Up to \<open>await fetch(...)\<close> it
  builds the outbound body \<open>{ ...payload, to: token }\<close> and issues the request; the
  rest runs when the fetch (and the read of the response text) has settled.
\<close>

definition expo_body :: "jsval \<Rightarrow> payload \<Rightarrow> jsval" where
  "expo_body tok p =
     JObj [(''title'', title p), (''body'', body p), (''data'', data p),
           (''sound'', sound p), (''channelId'', channelId p),
           (''priority'', priority p), (''to'', tok)]"

datatype fetch_outcome =
    Responded int string
  | Failed string

datatype console_line =
    ExpoResponse int string
  | BackoffSuggested int
  | BodyLine string
  | SendFailed string string
  | QueueError js_error
  | HandleFailed js_error

text \<open>
  \<open>token.substring(0, 20)\<close>: only a string has the method; on any other value
  \<open>token.substring\<close> is \<open>undefined\<close> (or, for an object, not a function) and the
  call throws a TypeError.
\<close>

fun substring20 :: "jsval \<Rightarrow> js_error + string" where
  "substring20 (JStr s) = Inr (take 20 s)"
| "substring20 v = Inl (TypeError ''token.substring is not a function'')"

text \<open>The \<open>catch (err)\<close> branch, lines 167-169: it evaluates \<open>token.substring\<close> again.\<close>

definition sendToExpo_catch :: "jsval \<Rightarrow> js_error \<Rightarrow> js_error + console_line list" where
  "sendToExpo_catch tok err =
     (case substring20 tok of
        Inl e \<Rightarrow> Inl e
      | Inr pre \<Rightarrow> Inr [SendFailed pre (message err)])"

text \<open>
  The part of \<open>sendToExpo\<close> after the fetch has settled, lines 158-169.
  \<open>Inl\<close> is an exception that leaves \<open>sendToExpo\<close> (its promise rejects),
  \<open>Inr\<close> the console lines of a normal return.
\<close>

definition sendToExpo_settle :: "jsval \<Rightarrow> fetch_outcome \<Rightarrow> js_error + console_line list" where
  "sendToExpo_settle tok out =
     (case out of
        Failed reason \<Rightarrow> sendToExpo_catch tok (Error reason)
      | Responded status text \<Rightarrow>
          (case substring20 tok of
             Inl e \<Rightarrow> sendToExpo_catch tok e
           | Inr pre \<Rightarrow>
               Inr ([ExpoResponse status pre]
                    @ (if status \<ge> 500 \<or> status = 429 then [BackoffSuggested status] else [])
                    @ (if text \<noteq> [] \<and> length text < 512 then [BodyLine text] else []))))"

subsection \<open>The queue state and the worker\<close>

text \<open>
  A suspended invocation of \<open>processQueue\<close>: at \<open>await delay(waitMs)\<close> (line 182,
  holding the item it has shifted and the time the timer is due), at
  \<open>await sendToExpo(...)\<close> (line 185) or at \<open>await delay(STAGGER_MS)\<close> (line 190).
\<close>

datatype worker =
    AwaitInterval item int
  | AwaitSend item
  | AwaitStagger int

text \<open>
  What an observer of the outbound side sees: a request to Expo being issued, and
  \<open>sendToExpo\<close> being left (normally or by an exception), each with the clock value.
\<close>

datatype observation =
    SendStarted item jsval int
  | SendFinished item int

text \<open>
  \<open>queue\<close>, \<open>sending\<close> and \<open>lastSent\<close> are the module's variables (lines 133-135).
  \<open>clock\<close> is what \<open>Date.now()\<close> returns, \<open>workers\<close> the suspended invocations
  of \<open>processQueue\<close>, \<open>trace\<close> the observations so far (newest first) and
  \<open>console\<close> the lines written (newest first).
\<close>

record qstate =
  queue :: "item list"
  sending :: bool
  lastSent :: int
  clock :: int
  workers :: "worker list"
  trace :: "observation list"
  console :: "console_line list"

definition init :: "int \<Rightarrow> qstate" where
  "init now =
     \<lparr>queue = [], sending = False, lastSent = 0, clock = now,
      workers = [], trace = [], console = []\<rparr>"

text \<open>Line 180: \<open>Math.max(0, lastSent + MIN_INTERVAL_MS - Date.now())\<close>.\<close>

definition waitMs :: "config \<Rightarrow> qstate \<Rightarrow> int" where
  "waitMs cfg st = max 0 (lastSent st + MIN_INTERVAL_MS cfg - clock st)"

text \<open>
  \<open>delay(ms)\<close>, line 137, called at clock value \<open>now\<close>: the time its timer is due.
  \<open>setTimeout\<close> runs a delay above \<open>2^31 - 1\<close> ms, or below 1 ms, as 1 ms.
\<close>

definition delay :: "int \<Rightarrow> int \<Rightarrow> int" where
  "delay now ms = now + (if ms < 1 \<or> 2147483647 < ms then 1 else ms)"

text \<open>The first part of \<open>sendToExpo\<close>: the request is issued now.\<close>

definition sendToExpo_begin :: "item \<Rightarrow> qstate \<Rightarrow> qstate" where
  "sendToExpo_begin it st =
     st\<lparr>trace := SendStarted it (expo_body (token it) (payload it)) (clock st) # trace st\<rparr>"

text \<open>
  One pass from the loop test (line 176) to the next \<open>await\<close>: either the loop
  exits and line 194 clears the flag (no continuation is left), or the head is
  shifted and the worker suspends on the interval timer or on the send.
\<close>

definition drain :: "config \<Rightarrow> qstate \<Rightarrow> worker option \<times> qstate" where
  "drain cfg st =
     (case queue st of
        [] \<Rightarrow> (None, st\<lparr>sending := False\<rparr>)
      | it # rest \<Rightarrow>
          (let st1 = st\<lparr>queue := rest\<rparr> in
           if waitMs cfg st1 > 0
           then (Some (AwaitInterval it (delay (clock st1) (waitMs cfg st1))), st1)
           else (Some (AwaitSend it), sendToExpo_begin it st1)))"

text \<open>A fresh invocation suspends as a new worker, or has already returned.\<close>

fun spawn :: "worker option \<times> qstate \<Rightarrow> qstate" where
  "spawn (None, st) = st"
| "spawn (Some w, st) = st\<lparr>workers := workers st @ [w]\<rparr>"

text \<open>\<open>processQueue\<close>, lines 172-175, up to its first \<open>await\<close>.\<close>

definition processQueue :: "config \<Rightarrow> qstate \<Rightarrow> qstate" where
  "processQueue cfg st =
     (if sending st then st else spawn (drain cfg (st\<lparr>sending := True\<rparr>)))"

text \<open>The loop of \<open>enqueue\<close>, lines 198-200.\<close>

definition push_all :: "jsval list \<Rightarrow> payload \<Rightarrow> qstate \<Rightarrow> qstate" where
  "push_all tokens p st =
     st\<lparr>queue := queue st @ map (\<lambda>t. \<lparr>token = t, payload = p\<rparr>) tokens\<rparr>"

text \<open>\<open>enqueue\<close>, lines 197-202.\<close>

definition enqueue :: "config \<Rightarrow> jsval list \<Rightarrow> payload \<Rightarrow> qstate \<Rightarrow> qstate" where
  "enqueue cfg tokens p st = processQueue cfg (push_all tokens p st)"

text \<open>Worker \<open>i\<close> resumes and runs to its next \<open>await\<close>, or returns.\<close>

fun continue_at :: "nat \<Rightarrow> worker option \<times> qstate \<Rightarrow> qstate" where
  "continue_at i (None, st) = st\<lparr>workers := take i (workers st) @ drop (Suc i) (workers st)\<rparr>"
| "continue_at i (Some w, st) = st\<lparr>workers := (workers st)[i := w]\<rparr>"

text \<open>
  Lines 185-191 after \<open>sendToExpo\<close> has settled.  If it threw, \<open>processQueue\<close>
  rejects there: nothing after line 185 runs, \<open>sending\<close> keeps its value, and the
  handler attached in \<open>enqueue\<close> (line 201) logs the error.
\<close>

definition after_send :: "config \<Rightarrow> nat \<Rightarrow> item \<Rightarrow> fetch_outcome \<Rightarrow> qstate \<Rightarrow> qstate" where
  "after_send cfg i it out st =
     (let st0 = st\<lparr>trace := SendFinished it (clock st) # trace st\<rparr> in
      case sendToExpo_settle (token it) out of
        Inl err \<Rightarrow>
          continue_at i (None, st0\<lparr>console := QueueError err # console st0\<rparr>)
      | Inr lines \<Rightarrow>
          (let st1 = st0\<lparr>console := rev lines @ console st0, lastSent := clock st0\<rparr> in
           if STAGGER_MS cfg > 0 \<and> queue st1 \<noteq> []
           then continue_at i (Some (AwaitStagger (delay (clock st1) (STAGGER_MS cfg))), st1)
           else continue_at i (drain cfg st1)))"

text \<open>
  The events of the environment.  A timer fires only once the clock has reached the
  time it is due, and the clock never runs backwards; an event that cannot happen in
  the current state (no such worker, timer not yet due) leaves the state as it is.
\<close>

datatype event =
    Tick nat
  | Enqueue "jsval list" payload
  | TimerFired nat
  | FetchSettled nat fetch_outcome

definition timer_fired :: "config \<Rightarrow> nat \<Rightarrow> qstate \<Rightarrow> qstate" where
  "timer_fired cfg i st =
     (if i < length (workers st) then
        (case workers st ! i of
           AwaitInterval it due \<Rightarrow>
             if due \<le> clock st
             then continue_at i (Some (AwaitSend it), sendToExpo_begin it st)
             else st
         | AwaitStagger due \<Rightarrow>
             if due \<le> clock st then continue_at i (drain cfg st) else st
         | AwaitSend it \<Rightarrow> st)
      else st)"

definition fetch_settled :: "config \<Rightarrow> nat \<Rightarrow> fetch_outcome \<Rightarrow> qstate \<Rightarrow> qstate" where
  "fetch_settled cfg i out st =
     (if i < length (workers st) then
        (case workers st ! i of
           AwaitSend it \<Rightarrow> after_send cfg i it out st
         | _ \<Rightarrow> st)
      else st)"

fun step :: "config \<Rightarrow> qstate \<Rightarrow> event \<Rightarrow> qstate" where
  "step cfg st (Tick d) = st\<lparr>clock := clock st + int d\<rparr>"
| "step cfg st (Enqueue tokens p) = enqueue cfg tokens p st"
| "step cfg st (TimerFired i) = timer_fired cfg i st"
| "step cfg st (FetchSettled i out) = fetch_settled cfg i out st"

definition run :: "config \<Rightarrow> event list \<Rightarrow> qstate \<Rightarrow> qstate" where
  "run cfg evs st = foldl (step cfg) st evs"

subsection \<open>The inbound side\<close>

text \<open>
  A request body arrives as chunks of bytes; \<open>data += chunk\<close> decodes each chunk
  as UTF-8 and appends the text to a JavaScript string, whose \<open>length\<close> counts
  UTF-16 code units.  A chunk is modelled by the code points it decodes to (chunks
  are taken to end on character boundaries), with the number of bytes and of code
  units each code point stands for.
\<close>

type_synonym codepoint = nat
type_synonym chunk = "codepoint list"

definition utf8_bytes :: "codepoint \<Rightarrow> nat" where
  "utf8_bytes c = (if c < 0x80 then 1 else if c < 0x800 then 2 else if c < 0x10000 then 3 else 4)"

definition utf16_units :: "codepoint \<Rightarrow> nat" where
  "utf16_units c = (if c < 0x10000 then 1 else 2)"

definition byte_size :: "chunk list \<Rightarrow> nat" where
  "byte_size chunks = sum_list (map utf8_bytes (concat chunks))"

definition js_length :: "codepoint list \<Rightarrow> nat" where
  "js_length s = sum_list (map utf16_units s)"

text \<open>
  What \<open>parseBody\<close> has seen of one request: the text received so far, or
  \<open>Rejected\<close> once the promise has been rejected and \<open>req.destroy()\<close> called
  (lines 219-220).  A destroyed request delivers no further \<open>data\<close> event and no
  \<open>end\<close> event, and its socket is closed.
\<close>

datatype reading =
    Reading "codepoint list"
  | Rejected js_error

text \<open>The \<open>data\<close> listener of \<open>parseBody\<close>, lines 216-222.\<close>

fun on_data :: "reading \<Rightarrow> chunk \<Rightarrow> reading" where
  "on_data (Reading text) c =
     (if js_length (text @ c) > 1024 * 16 then Rejected (Error ''Payload too large'')
      else Reading (text @ c))"
| "on_data (Rejected e) c = Rejected e"

text \<open>
  \<open>parseBody\<close> (lines 213-231) over the chunks of one request: how the promise
  settles (\<open>Inl\<close>: rejected), and whether the request has been destroyed.
  \<open>JSON.parse\<close> belongs to the runtime and is a parameter: it returns a value or
  throws.
\<close>

definition parseBody ::
  "(codepoint list \<Rightarrow> js_error + jsval) \<Rightarrow> chunk list \<Rightarrow> (js_error + jsval) \<times> bool" where
  "parseBody JSON_parse chunks =
     (case foldl on_data (Reading []) chunks of
        Rejected e \<Rightarrow> (Inl e, True)
      | Reading text \<Rightarrow> (if text = [] then Inr (JObj []) else JSON_parse text, False))"

type_synonym response = "nat \<times> jsval"

text \<open>\<open>sendJson\<close>, lines 204-211: the status and the body written on \<open>res\<close>.\<close>

definition sendJson :: "nat \<Rightarrow> jsval \<Rightarrow> response" where
  "sendJson status obj = (status, obj)"

text \<open>
  What the caller receives of a response written on \<open>res\<close>: nothing, once
  \<open>req.destroy()\<close> has closed the socket.
\<close>

definition received :: "bool \<Rightarrow> response \<Rightarrow> response option" where
  "received destroyed resp = (if destroyed then None else Some resp)"

definition try_bind :: "js_error + 'a \<Rightarrow> ('a \<Rightarrow> js_error + 'b) \<Rightarrow> js_error + 'b" where
  "try_bind r f = (case r of Inl e \<Rightarrow> Inl e | Inr v \<Rightarrow> f v)"

text \<open>Lines 251-258.\<close>

definition build_payload :: "jsval \<Rightarrow> js_error + payload" where
  "build_payload b =
     try_bind (get_prop b ''title'') (\<lambda>ti.
     try_bind (get_prop b ''body'') (\<lambda>bo.
     try_bind (get_prop b ''data'') (\<lambda>da.
     try_bind (get_prop b ''sound'') (\<lambda>so.
     try_bind (get_prop b ''channelId'') (\<lambda>ch.
       Inr \<lparr>title = ti, body = bo, data = js_or da (JObj []),
            sound = js_or so (JStr ''default''),
            channelId = js_or ch (JStr ''default''),
            priority = JStr ''high''\<rparr>)))))"

text \<open>
  The \<open>try\<close> block of the \<open>POST /push\<close> branch after \<open>parseBody\<close> has
  resolved with \<open>b\<close>, lines 243-261.
\<close>

definition push_body :: "config \<Rightarrow> jsval \<Rightarrow> qstate \<Rightarrow> js_error + response \<times> qstate" where
  "push_body cfg b st =
     try_bind (get_prop b ''to'') (\<lambda>to.
       let tokens = normalizeTokens to in
       if length tokens = 0
       then Inr (sendJson 400 (JObj [(''error'', JStr ''Missing 'to' token(s)'')]), st)
       else
         try_bind (get_prop b ''title'') (\<lambda>ti.
         try_bind (if truthy ti then get_prop b ''body'' else Inr JUndefined) (\<lambda>bo.
           if \<not> truthy ti \<or> \<not> truthy bo
           then Inr (sendJson 400
                  (JObj [(''error'', JStr (''Missing 'title' or 'body'' @ [CHR 0x27]))]), st)
           else
             try_bind (build_payload b) (\<lambda>p.
               Inr (sendJson 202 (JObj [(''queued'', JNum (int (length tokens)))]),
                    enqueue cfg tokens p st)))))"

text \<open>
  The \<open>POST /push\<close> branch, lines 240-266, once \<open>parseBody\<close> has settled with
  \<open>r\<close>: a rejection of \<open>parseBody\<close> and an exception of the block both end in
  the \<open>catch\<close>.  The result is the response written on \<open>res\<close>.
\<close>

definition push_settled :: "config \<Rightarrow> js_error + jsval \<Rightarrow> qstate \<Rightarrow> response \<times> qstate" where
  "push_settled cfg r st =
     (case try_bind r (\<lambda>b. push_body cfg b st) of
        Inl err \<Rightarrow>
          (sendJson 400 (JObj [(''error'', JStr (message err))]),
           st\<lparr>console := HandleFailed err # console st\<rparr>)
      | Inr res \<Rightarrow> res)"

text \<open>The \<open>POST /push\<close> branch over the chunks of the request: what the caller receives.\<close>

definition push_handler ::
  "config \<Rightarrow> (codepoint list \<Rightarrow> js_error + jsval) \<Rightarrow> chunk list \<Rightarrow> qstate
   \<Rightarrow> response option \<times> qstate" where
  "push_handler cfg JSON_parse chunks st =
     (case parseBody JSON_parse chunks of
        (r, destroyed) \<Rightarrow>
          (case push_settled cfg r st of
             (resp, st') \<Rightarrow> (received destroyed resp, st')))"

text \<open>
  An inbound request: \<open>req.method\<close>, \<open>req.url\<close>, \<open>req.headers.host\<close> and the
  chunks of its body.
\<close>

record request =
  req_method :: string
  req_url :: string
  req_host :: string
  req_chunks :: "chunk list"

text \<open>
  The request listener, lines 233-269.  \<open>URL_pathname url base\<close> stands for
  \<open>new URL(url, base).pathname\<close> of the runtime, which throws on a target it
  cannot parse.  Line 234 is outside any \<open>try\<close>: \<open>Inl\<close> is the rejection of the
  listener's promise, which nothing handles and which ends the process.
\<close>

definition server ::
  "config \<Rightarrow> (codepoint list \<Rightarrow> js_error + jsval) \<Rightarrow> (string \<Rightarrow> string \<Rightarrow> js_error + string)
   \<Rightarrow> request \<Rightarrow> qstate \<Rightarrow> js_error + response option \<times> qstate" where
  "server cfg JSON_parse URL_pathname req st =
     try_bind (URL_pathname (req_url req) (''http://'' @ req_host req)) (\<lambda>pathname.
       if req_method req = ''GET'' \<and> pathname = ''/health''
       then Inr (received False
                   (sendJson 200 (JObj [(''status'', JStr ''ok''),
                                        (''queued'', JNum (int (length (queue st))))])), st)
       else if req_method req = ''POST'' \<and> pathname = ''/push''
       then Inr (push_handler cfg JSON_parse (req_chunks req) st)
       else Inr (received False (sendJson 404 (JObj [(''error'', JStr ''Not found'')])), st))"

subsection \<open>Observable behaviour\<close>

text \<open>The items for which a request to Expo has been issued, oldest first.\<close>

fun started_item :: "observation \<Rightarrow> item list" where
  "started_item (SendStarted it b s) = [it]"
| "started_item (SendFinished it c) = []"

definition attempts :: "qstate \<Rightarrow> item list" where
  "attempts st = rev (concat (map started_item (trace st)))"

text \<open>The items a suspended worker has shifted off the queue but not yet sent.\<close>

fun held_item :: "worker \<Rightarrow> item list" where
  "held_item (AwaitInterval it due) = [it]"
| "held_item (AwaitSend it) = []"
| "held_item (AwaitStagger due) = []"

definition pending :: "qstate \<Rightarrow> item list" where
  "pending st = concat (map held_item (workers st)) @ queue st"

text \<open>What a continuation returned by \<open>drain\<close> holds.\<close>

definition held_by :: "worker option \<Rightarrow> item list" where
  "held_by wo = (case wo of None \<Rightarrow> [] | Some w \<Rightarrow> held_item w)"

text \<open>
  The flag is set but no invocation of \<open>processQueue\<close> is left to clear it.
\<close>

definition stalled :: "qstate \<Rightarrow> bool" where
  "stalled st = (sending st \<and> workers st = [])"

fun submitted :: "event \<Rightarrow> item list" where
  "submitted (Enqueue tokens p) = map (\<lambda>t. \<lparr>token = t, payload = p\<rparr>) tokens"
| "submitted ev = []"

text \<open>
  \<open>spaced m tr\<close>: in the trace \<open>tr\<close> (newest first) sends do not overlap, and
  every send but the first starts at least \<open>m\<close> after the send before it finished.
\<close>

fun spaced :: "int \<Rightarrow> observation list \<Rightarrow> bool" where
  "spaced m [] = True"
| "spaced m (SendFinished it c # tr) =
     (case tr of SendStarted it' b s # rest \<Rightarrow> spaced m tr | _ \<Rightarrow> False)"
| "spaced m (SendStarted it b s # tr) =
     (case tr of
        [] \<Rightarrow> True
      | SendFinished it' c # rest \<Rightarrow> c + m \<le> s \<and> spaced m tr
      | SendStarted it' b' s' # rest \<Rightarrow> False)"

subsection \<open>The invariants of the worker\<close>

text \<open>
  At most one invocation of \<open>processQueue\<close> is suspended, only while the flag is
  set, and the queue is empty while the flag is clear.
\<close>

definition shape :: "qstate \<Rightarrow> bool" where
  "shape st =
     (length (workers st) \<le> 1 \<and>
      (workers st \<noteq> [] \<longrightarrow> sending st) \<and>
      (\<not> sending st \<longrightarrow> queue st = []))"

text \<open>No send is in flight.\<close>

definition quiet :: "observation list \<Rightarrow> bool" where
  "quiet tr = (case tr of SendStarted it b s # rest \<Rightarrow> False | _ \<Rightarrow> True)"

text \<open>No send is in flight, and \<open>lastSent\<close> is not older than the last send's end.\<close>

definition settled_ok :: "qstate \<Rightarrow> bool" where
  "settled_ok st =
     (case trace st of
        [] \<Rightarrow> True
      | SendFinished it c # rest \<Rightarrow> c \<le> lastSent st
      | SendStarted it b s # rest \<Rightarrow> False)"

text \<open>Once something has been sent, \<open>lastSent\<close> is not ahead of the clock.\<close>

definition timely :: "qstate \<Rightarrow> bool" where
  "timely st = (trace st = [] \<or> lastSent st \<le> clock st)"

fun worker_ok :: "config \<Rightarrow> qstate \<Rightarrow> worker \<Rightarrow> bool" where
  "worker_ok cfg st (AwaitInterval it due) =
     (settled_ok st \<and> (trace st = [] \<or> lastSent st + MIN_INTERVAL_MS cfg \<le> due))"
| "worker_ok cfg st (AwaitSend it) = (\<not> quiet (trace st))"
| "worker_ok cfg st (AwaitStagger due) = (settled_ok st \<and> timely st)"

definition timed :: "config \<Rightarrow> qstate \<Rightarrow> bool" where
  "timed cfg st =
     (spaced (MIN_INTERVAL_MS cfg) (trace st) \<and>
      (\<forall>w \<in> set (workers st). worker_ok cfg st w) \<and>
      (workers st = [] \<longrightarrow>
         (if sending st then quiet (trace st) else settled_ok st \<and> timely st)))"

subsection \<open>Example configuration and inputs\<close>

text \<open>The defaults of the Dockerfile, and the payload built from \<open>{title: "t", body: "b"}\<close>.\<close>

definition cfg0 :: config where
  "cfg0 = \<lparr>MIN_INTERVAL_MS = 20000, STAGGER_MS = 3000\<rparr>"

definition p0 :: payload where
  "p0 = \<lparr>title = JStr ''t'', body = JStr ''b'', data = JObj [], sound = JStr ''default'',
         channelId = JStr ''default'', priority = JStr ''high''\<rparr>"

definition two_tokens :: "event list" where
  "two_tokens =
     [Enqueue [JStr ''A'', JStr ''B''] p0, FetchSettled 0 (Responded 200 ''ok''),
      Tick 3000, TimerFired 0, Tick 17000, TimerFired 0]"

definition draining :: qstate where
  "draining = run cfg0 [Enqueue [JStr ''A'', JStr ''B''] p0] (init 100000)"

text \<open>
  A request with a number as its token, followed by one with a string token; and one
  request with both tokens, whose first fetch fails.
\<close>

definition number_token :: "event list" where
  "number_token =
     [Enqueue [JNum 5] p0, FetchSettled 0 (Responded 400 ''{}''), Enqueue [JStr ''X''] p0]"

definition mixed_batch :: "event list" where
  "mixed_batch = [Enqueue [JNum 5, JStr ''X''] p0, FetchSettled 0 (Failed ''network'')]"

text \<open>Request bodies as \<open>JSON.parse\<close> returns them.\<close>

definition number_token_body :: jsval where
  "number_token_body = JObj [(''to'', JNum 5), (''title'', JStr ''t''), (''body'', JStr ''b'')]"

definition mixed_batch_body :: jsval where
  "mixed_batch_body =
     JObj [(''to'', JArr [JNum 5, JStr ''X'']), (''title'', JStr ''t''), (''body'', JStr ''b'')]"

definition two_token_body :: jsval where
  "two_token_body =
     JObj [(''to'', JArr [JStr ''A'', JNull, JStr ''B'']), (''title'', JStr ''t''),
           (''body'', JStr ''b'')]"

definition only_title_body :: jsval where
  "only_title_body = JObj [(''title'', JStr ''t''), (''body'', JStr ''b'')]"

definition only_to :: jsval where
  "only_to = JObj [(''to'', JStr ''ABC'')]"

definition single_token_body :: jsval where
  "single_token_body = JObj [(''to'', JStr ''X''), (''title'', JStr ''t''), (''body'', JStr ''b'')]"

definition three_entry_body :: jsval where
  "three_entry_body =
     JObj [(''to'', JArr [JStr ''A'', JStr [], JStr ''B'']), (''title'', JStr ''t''),
           (''body'', JStr ''b'')]"

text \<open>
  The minimum interval set to 3000000000 ms, and a run (started at the clock value
  1700000000000) in which the stagger timer and then the interval timer fire when due.
\<close>

definition long_interval :: config where
  "long_interval = \<lparr>MIN_INTERVAL_MS = 3000000000, STAGGER_MS = 3000\<rparr>"

definition two_tokens_early :: "event list" where
  "two_tokens_early =
     [Enqueue [JStr ''A'', JStr ''B''] p0, FetchSettled 0 (Responded 200 ''ok''),
      Tick 3000, TimerFired 0, Tick 1, TimerFired 0]"

text \<open>
  The texts of the example bodies, as the code points of
  \<open>{"title":"t","body":"b"}\<close>, \<open>{"to":"ABC"}\<close>,
  \<open>{"to":"X","title":"t","body":"b"}\<close>,
  \<open>{"to":["A",null,"B"],"title":"t","body":"b"}\<close> and
  \<open>{"to":["A","","B"],"title":"t","body":"b"}\<close>.
\<close>

definition text_only_title :: chunk where
  "text_only_title =
     [0x7B, 0x22, 0x74, 0x69, 0x74, 0x6C, 0x65, 0x22, 0x3A, 0x22,
      0x74, 0x22, 0x2C, 0x22, 0x62, 0x6F, 0x64, 0x79, 0x22, 0x3A,
      0x22, 0x62, 0x22, 0x7D]"

definition text_only_to :: chunk where
  "text_only_to =
     [0x7B, 0x22, 0x74, 0x6F, 0x22, 0x3A, 0x22, 0x41, 0x42, 0x43,
      0x22, 0x7D]"

definition text_single_token :: chunk where
  "text_single_token =
     [0x7B, 0x22, 0x74, 0x6F, 0x22, 0x3A, 0x22, 0x58, 0x22, 0x2C,
      0x22, 0x74, 0x69, 0x74, 0x6C, 0x65, 0x22, 0x3A, 0x22, 0x74,
      0x22, 0x2C, 0x22, 0x62, 0x6F, 0x64, 0x79, 0x22, 0x3A, 0x22,
      0x62, 0x22, 0x7D]"

definition text_two_token :: chunk where
  "text_two_token =
     [0x7B, 0x22, 0x74, 0x6F, 0x22, 0x3A, 0x5B, 0x22, 0x41, 0x22,
      0x2C, 0x6E, 0x75, 0x6C, 0x6C, 0x2C, 0x22, 0x42, 0x22, 0x5D,
      0x2C, 0x22, 0x74, 0x69, 0x74, 0x6C, 0x65, 0x22, 0x3A, 0x22,
      0x74, 0x22, 0x2C, 0x22, 0x62, 0x6F, 0x64, 0x79, 0x22, 0x3A,
      0x22, 0x62, 0x22, 0x7D]"

definition text_three_entry :: chunk where
  "text_three_entry =
     [0x7B, 0x22, 0x74, 0x6F, 0x22, 0x3A, 0x5B, 0x22, 0x41, 0x22,
      0x2C, 0x22, 0x22, 0x2C, 0x22, 0x42, 0x22, 0x5D, 0x2C, 0x22,
      0x74, 0x69, 0x74, 0x6C, 0x65, 0x22, 0x3A, 0x22, 0x74, 0x22,
      0x2C, 0x22, 0x62, 0x6F, 0x64, 0x79, 0x22, 0x3A, 0x22, 0x62,
      0x22, 0x7D]"

text \<open>
  The text \<open>{"body":"...","to":"X","title":"t","body":"b"}\<close> whose first
  \<open>body\<close> is 6000 times U+4E2D (three bytes each in UTF-8, one UTF-16 code unit
  each), with the value \<open>JSON.parse\<close> returns for it (of a repeated name the last
  value is kept, at the place of the first); and a body of 16385 letters \<open>a\<close>.
\<close>

definition cjk_body :: chunk where
  "cjk_body =
     [0x7B, 0x22, 0x62, 0x6F, 0x64, 0x79, 0x22, 0x3A, 0x22]
     @ replicate 6000 0x4E2D @
     [0x22, 0x2C, 0x22, 0x74, 0x6F, 0x22, 0x3A, 0x22, 0x58, 0x22,
      0x2C, 0x22, 0x74, 0x69, 0x74, 0x6C, 0x65, 0x22, 0x3A, 0x22,
      0x74, 0x22, 0x2C, 0x22, 0x62, 0x6F, 0x64, 0x79, 0x22, 0x3A,
      0x22, 0x62, 0x22, 0x7D]"

definition cjk_parsed :: jsval where
  "cjk_parsed = JObj [(''body'', JStr ''b''), (''to'', JStr ''X''), (''title'', JStr ''t'')]"

definition ascii_body :: chunk where
  "ascii_body = replicate 16385 0x61"

text \<open>
  \<open>JSON.parse\<close> on the example texts (it throws on the text of \<open>ascii_body\<close>),
  and \<open>new URL(url, base).pathname\<close> on the example targets: a target that is a
  plain path is its own pathname, and the target \<open>//\<close> cannot be parsed.
\<close>

definition example_parse :: "codepoint list \<Rightarrow> js_error + jsval" where
  "example_parse text =
     (if text = text_only_title then Inr only_title_body
      else if text = text_only_to then Inr only_to
      else if text = text_single_token then Inr single_token_body
      else if text = text_two_token then Inr two_token_body
      else if text = text_three_entry then Inr three_entry_body
      else if text = cjk_body then Inr cjk_parsed
      else Inl (SyntaxError ''Unexpected token in JSON''))"

definition example_pathname :: "string \<Rightarrow> string \<Rightarrow> js_error + string" where
  "example_pathname url base = (if url = ''//'' then Inl (TypeError ''Invalid URL'') else Inr url)"

definition push_request :: "chunk list \<Rightarrow> request" where
  "push_request chunks =
     \<lparr>req_method = ''POST'', req_url = ''/push'', req_host = ''localhost:8080'',
      req_chunks = chunks\<rparr>"

definition health_request :: "chunk list \<Rightarrow> request" where
  "health_request chunks =
     \<lparr>req_method = ''GET'', req_url = ''/health'', req_host = ''localhost:8080'',
      req_chunks = chunks\<rparr>"

section \<open>Properties\<close>

subsection \<open>The drain loop\<close>

lemma waitMs_queue [simp]: "waitMs cfg (st\<lparr>queue := q\<rparr>) = waitMs cfg st"
  by (simp add: waitMs_def)

lemma drain_Nil: "queue st = [] \<Longrightarrow> drain cfg st = (None, st\<lparr>sending := False\<rparr>)"
  by (simp add: drain_def)

lemma drain_wait:
  "queue st = it # rest \<Longrightarrow> 0 < waitMs cfg st \<Longrightarrow>
   drain cfg st =
     (Some (AwaitInterval it (delay (clock st) (waitMs cfg st))), st\<lparr>queue := rest\<rparr>)"
  by (simp add: drain_def)

lemma drain_send:
  "queue st = it # rest \<Longrightarrow> \<not> 0 < waitMs cfg st \<Longrightarrow>
   drain cfg st = (Some (AwaitSend it), sendToExpo_begin it (st\<lparr>queue := rest\<rparr>))"
  by (simp add: drain_def)

lemma delay_exact: "1 \<le> ms \<Longrightarrow> ms \<le> 2147483647 \<Longrightarrow> delay now ms = now + ms"
  by (simp add: delay_def)

lemma drain_flag: "sending (snd (drain cfg st)) = (queue st \<noteq> [] \<and> sending st)"
  by (cases "queue st") (simp_all add: drain_def Let_def sendToExpo_begin_def)

lemma drain_shape:
  assumes "drain cfg st = (wo, st')"
  shows "workers st' = workers st \<and>
         (case wo of None \<Rightarrow> \<not> sending st' \<and> queue st' = []
          | Some w \<Rightarrow> sending st' = sending st)"
proof (cases "queue st")
  case Nil
  with assms drain_Nil[OF Nil, of cfg] show ?thesis by auto
next
  case (Cons it rest)
  show ?thesis
  proof (cases "0 < waitMs cfg st")
    case True
    with assms drain_wait[OF Cons True] show ?thesis by auto
  next
    case False
    with assms drain_send[OF Cons False] show ?thesis by (auto simp: sendToExpo_begin_def)
  qed
qed

subsection \<open>One worker at a time\<close>

lemma shape_init: "shape (init now)"
  by (simp add: shape_def init_def)

lemma shape_single:
  "shape st \<Longrightarrow> i < length (workers st) \<Longrightarrow> i = 0 \<and> (\<exists>w. workers st = [w]) \<and> sending st"
  by (cases "workers st") (auto simp: shape_def)

lemma shape_idle: "shape st \<Longrightarrow> \<not> sending st \<Longrightarrow> workers st = [] \<and> queue st = []"
  by (auto simp: shape_def)

lemma shape_spawn_drain:
  assumes "workers st = []" and "sending st"
  shows "shape (spawn (drain cfg st))"
proof (cases "drain cfg st")
  case (Pair wo st')
  from drain_shape[OF Pair] assms Pair show ?thesis
    by (cases wo) (simp_all add: shape_def)
qed

lemma shape_continue_drain:
  assumes "workers st = [w0]" and "sending st"
  shows "shape (continue_at 0 (drain cfg st))"
proof (cases "drain cfg st")
  case (Pair wo st')
  from drain_shape[OF Pair] assms Pair show ?thesis
    by (cases wo) (simp_all add: shape_def)
qed

lemma shape_enqueue: "shape st \<Longrightarrow> shape (enqueue cfg tokens p st)"
proof (cases "sending st")
  case True
  assume "shape st"
  with True show ?thesis by (simp add: enqueue_def processQueue_def push_all_def shape_def)
next
  case False
  assume "shape st"
  from shape_idle[OF this False] have "workers ((push_all tokens p st)\<lparr>sending := True\<rparr>) = []"
    by (simp add: push_all_def)
  from shape_spawn_drain[OF this, of cfg] False show ?thesis
    by (simp add: enqueue_def processQueue_def push_all_def)
qed

lemma shape_timer:
  assumes s: "shape st"
  shows "shape (timer_fired cfg i st)"
proof (cases "i < length (workers st)")
  case False
  with s show ?thesis by (simp add: timer_fired_def)
next
  case True
  from shape_single[OF s True] obtain w where i0: "i = 0" and ws: "workers st = [w]"
    and se: "sending st" by blast
  show ?thesis
  proof (cases w)
    case (AwaitInterval it due)
    with s ws i0 se show ?thesis
      by (simp add: timer_fired_def shape_def sendToExpo_begin_def)
  next
    case (AwaitSend it)
    with s ws i0 show ?thesis by (simp add: timer_fired_def)
  next
    case (AwaitStagger due)
    with s ws i0 shape_continue_drain[OF ws se, of cfg] show ?thesis
      by (simp add: timer_fired_def)
  qed
qed

lemma shape_fetch:
  assumes s: "shape st"
  shows "shape (fetch_settled cfg i out st)"
proof (cases "i < length (workers st)")
  case False
  with s show ?thesis by (simp add: fetch_settled_def)
next
  case True
  from shape_single[OF s True] obtain w where i0: "i = 0" and ws: "workers st = [w]"
    and se: "sending st" by blast
  show ?thesis
  proof (cases w)
    case (AwaitInterval it due)
    with s ws i0 show ?thesis by (simp add: fetch_settled_def)
  next
    case (AwaitStagger due)
    with s ws i0 show ?thesis by (simp add: fetch_settled_def)
  next
    case (AwaitSend it)
    have "shape (after_send cfg 0 it out st)"
    proof (cases "sendToExpo_settle (token it) out")
      case (Inl err)
      with ws se show ?thesis by (simp add: after_send_def Let_def shape_def)
    next
      case (Inr lines)
      let ?s1 = "st\<lparr>trace := SendFinished it (clock st) # trace st,
                     console := rev lines @ console st, lastSent := clock st\<rparr>"
      have ws1: "workers ?s1 = [w]" and se1: "sending ?s1" using ws se by simp_all
      show ?thesis
      proof (cases "STAGGER_MS cfg > 0 \<and> queue st \<noteq> []")
        case True
        with Inr ws se show ?thesis by (simp add: after_send_def Let_def shape_def)
      next
        case False
        with Inr shape_continue_drain[OF ws1 se1, of cfg] show ?thesis
          by (auto simp add: after_send_def Let_def)
      qed
    qed
    with ws i0 AwaitSend show ?thesis by (simp add: fetch_settled_def)
  qed
qed

lemma shape_tick: "shape st \<Longrightarrow> shape (st\<lparr>clock := t\<rparr>)"
  by (simp add: shape_def)

lemma shape_step: "shape st \<Longrightarrow> shape (step cfg st ev)"
  by (cases ev) (simp_all add: shape_tick shape_enqueue shape_timer shape_fetch)

lemma shape_run: "shape st \<Longrightarrow> shape (run cfg evs st)"
  unfolding run_def by (induction evs arbitrary: st) (simp_all add: shape_step)

lemma shape_reachable: "shape (run cfg evs (init now))"
  by (rule shape_run) (rule shape_init)

subsection \<open>The spacing of sends, for a minimum interval the timer honours\<close>

lemma settled_ok_clock [simp]: "settled_ok (st\<lparr>clock := t\<rparr>) = settled_ok st"
  by (simp add: settled_ok_def split: list.split observation.split)

lemma settled_ok_queue [simp]: "settled_ok (st\<lparr>queue := q\<rparr>) = settled_ok st"
  by (simp add: settled_ok_def split: list.split observation.split)

lemma settled_ok_sending [simp]: "settled_ok (st\<lparr>sending := b\<rparr>) = settled_ok st"
  by (simp add: settled_ok_def split: list.split observation.split)

lemma settled_ok_console [simp]: "settled_ok (st\<lparr>console := cs\<rparr>) = settled_ok st"
  by (simp add: settled_ok_def split: list.split observation.split)

lemma settled_ok_workers [simp]: "settled_ok (st\<lparr>workers := ws\<rparr>) = settled_ok st"
  by (simp add: settled_ok_def split: list.split observation.split)

lemma timely_queue [simp]: "timely (st\<lparr>queue := q\<rparr>) = timely st"
  by (simp add: timely_def)

lemma timely_sending [simp]: "timely (st\<lparr>sending := b\<rparr>) = timely st"
  by (simp add: timely_def)

lemma timely_console [simp]: "timely (st\<lparr>console := cs\<rparr>) = timely st"
  by (simp add: timely_def)

lemma timely_workers [simp]: "timely (st\<lparr>workers := ws\<rparr>) = timely st"
  by (simp add: timely_def)

lemma timely_tick: "timely st \<Longrightarrow> timely (st\<lparr>clock := clock st + int d\<rparr>)"
  by (auto simp: timely_def)

lemma worker_ok_queue [simp]: "worker_ok cfg (st\<lparr>queue := q\<rparr>) w = worker_ok cfg st w"
  by (cases w) simp_all

lemma worker_ok_workers [simp]: "worker_ok cfg (st\<lparr>workers := ws\<rparr>) w = worker_ok cfg st w"
  by (cases w) simp_all

lemma worker_ok_console [simp]: "worker_ok cfg (st\<lparr>console := cs\<rparr>) w = worker_ok cfg st w"
  by (cases w) simp_all

lemma worker_ok_tick:
  "worker_ok cfg st w \<Longrightarrow> worker_ok cfg (st\<lparr>clock := clock st + int d\<rparr>) w"
  by (cases w) (simp_all add: timely_tick)

lemma timed_init: "timed cfg (init now)"
  by (simp add: timed_def init_def settled_ok_def timely_def)

lemma timed_workerD:
  "timed cfg st \<Longrightarrow> workers st = [w] \<Longrightarrow>
   spaced (MIN_INTERVAL_MS cfg) (trace st) \<and> worker_ok cfg st w"
  by (simp add: timed_def)

lemma timedI_worker:
  "spaced (MIN_INTERVAL_MS cfg) (trace st) \<Longrightarrow> workers st = [w] \<Longrightarrow> worker_ok cfg st w \<Longrightarrow>
   timed cfg st"
  by (simp add: timed_def)

lemma timedI_stalled:
  "spaced (MIN_INTERVAL_MS cfg) (trace st) \<Longrightarrow> workers st = [] \<Longrightarrow> sending st \<Longrightarrow>
   quiet (trace st) \<Longrightarrow> timed cfg st"
  by (simp add: timed_def)

lemma timed_tick: "timed cfg st \<Longrightarrow> timed cfg (st\<lparr>clock := clock st + int d\<rparr>)"
  by (auto simp: timed_def worker_ok_tick timely_tick)

lemma spaced_start:
  assumes "spaced m (trace st)" and "settled_ok st" and "trace st = [] \<or> lastSent st + m \<le> s"
  shows "spaced m (SendStarted it b s # trace st)"
proof (cases "trace st")
  case Nil
  then show ?thesis by simp
next
  case (Cons ob rest)
  show ?thesis
  proof (cases ob)
    case (SendStarted it' b' s')
    with Cons assms(2) show ?thesis by (simp add: settled_ok_def)
  next
    case (SendFinished it' c)
    with Cons assms show ?thesis by (simp add: settled_ok_def)
  qed
qed

lemma spaced_finish:
  assumes "spaced m tr" and "\<not> quiet tr"
  shows "spaced m (SendFinished it c # tr)"
proof (cases tr)
  case Nil
  with assms(2) show ?thesis by (simp add: quiet_def)
next
  case (Cons ob rest)
  show ?thesis
  proof (cases ob)
    case (SendStarted it' b' s')
    with Cons assms(1) show ?thesis by simp
  next
    case (SendFinished it' c')
    with Cons assms(2) show ?thesis by (simp add: quiet_def)
  qed
qed

lemma due_after_interval:
  assumes bound: "MIN_INTERVAL_MS cfg \<le> 2147483647" and t: "timely st"
    and w: "0 < waitMs cfg st"
  shows "trace st = [] \<or> lastSent st + MIN_INTERVAL_MS cfg \<le> delay (clock st) (waitMs cfg st)"
proof (cases "trace st = []")
  case True
  then show ?thesis by simp
next
  case False
  with t have le: "lastSent st \<le> clock st" by (simp add: timely_def)
  from w have eq: "waitMs cfg st = lastSent st + MIN_INTERVAL_MS cfg - clock st"
    by (simp add: waitMs_def)
  with le bound have "waitMs cfg st \<le> 2147483647" by simp
  with w have "delay (clock st) (waitMs cfg st) = clock st + waitMs cfg st"
    by (simp add: delay_exact)
  with eq show ?thesis by simp
qed

lemma drain_ok:
  assumes bound: "MIN_INTERVAL_MS cfg \<le> 2147483647"
    and sp: "spaced (MIN_INTERVAL_MS cfg) (trace st)" and so: "settled_ok st"
    and ti: "timely st" and dr: "drain cfg st = (wo, st')"
  shows "spaced (MIN_INTERVAL_MS cfg) (trace st') \<and>
         (case wo of None \<Rightarrow> settled_ok st' \<and> timely st'
          | Some w \<Rightarrow> worker_ok cfg st' w)"
proof (cases "queue st")
  case Nil
  from dr drain_Nil[OF Nil, of cfg] have "wo = None" "st' = st\<lparr>sending := False\<rparr>" by simp_all
  with sp so ti show ?thesis by simp
next
  case (Cons it rest)
  show ?thesis
  proof (cases "0 < waitMs cfg st")
    case True
    from dr drain_wait[OF Cons True]
    have "wo = Some (AwaitInterval it (delay (clock st) (waitMs cfg st)))"
      "st' = st\<lparr>queue := rest\<rparr>"
      by simp_all
    with due_after_interval[OF bound ti True] sp so show ?thesis by simp
  next
    case False
    from dr drain_send[OF Cons False]
    have w: "wo = Some (AwaitSend it)" and s: "st' = sendToExpo_begin it (st\<lparr>queue := rest\<rparr>)"
      by simp_all
    from False have "trace st = [] \<or> lastSent st + MIN_INTERVAL_MS cfg \<le> clock st"
      by (auto simp: waitMs_def)
    from spaced_start[OF sp so this]
    show ?thesis using w s by (simp add: sendToExpo_begin_def quiet_def)
  qed
qed

lemma timed_spawn_drain:
  assumes "MIN_INTERVAL_MS cfg \<le> 2147483647"
    and "spaced (MIN_INTERVAL_MS cfg) (trace st)" "settled_ok st" "timely st"
    and ws: "workers st = []"
  shows "timed cfg (spawn (drain cfg st))"
proof (cases "drain cfg st")
  case (Pair wo st')
  note d = drain_ok[OF assms(1-4) Pair] and h = drain_shape[OF Pair]
  show ?thesis
  proof (cases wo)
    case None
    with d h ws Pair show ?thesis by (simp add: timed_def)
  next
    case (Some w)
    with d h ws Pair show ?thesis by (simp add: timed_def)
  qed
qed

lemma timed_continue_drain:
  assumes "MIN_INTERVAL_MS cfg \<le> 2147483647"
    and "spaced (MIN_INTERVAL_MS cfg) (trace st)" "settled_ok st" "timely st"
    and ws: "workers st = [w0]"
  shows "timed cfg (continue_at 0 (drain cfg st))"
proof (cases "drain cfg st")
  case (Pair wo st')
  note d = drain_ok[OF assms(1-4) Pair] and h = drain_shape[OF Pair]
  show ?thesis
  proof (cases wo)
    case None
    with d h ws Pair show ?thesis by (simp add: timed_def)
  next
    case (Some w)
    with d h ws Pair show ?thesis by (simp add: timed_def)
  qed
qed

lemma timed_enqueue:
  assumes bound: "MIN_INTERVAL_MS cfg \<le> 2147483647" and s: "shape st" and t: "timed cfg st"
  shows "timed cfg (enqueue cfg tokens p st)"
proof (cases "sending st")
  case True
  with t show ?thesis by (simp add: enqueue_def processQueue_def push_all_def timed_def)
next
  case False
  let ?s = "(push_all tokens p st)\<lparr>sending := True\<rparr>"
  from shape_idle[OF s False] have ws: "workers st = []" by simp
  with t False have "spaced (MIN_INTERVAL_MS cfg) (trace ?s)" "settled_ok ?s" "timely ?s"
    "workers ?s = []"
    by (auto simp: timed_def push_all_def timely_def)
  from timed_spawn_drain[OF bound this] False show ?thesis
    by (simp add: enqueue_def processQueue_def push_all_def)
qed

lemma timed_timer:
  assumes bound: "MIN_INTERVAL_MS cfg \<le> 2147483647" and s: "shape st" and t: "timed cfg st"
  shows "timed cfg (timer_fired cfg i st)"
proof (cases "i < length (workers st)")
  case False
  with t show ?thesis by (simp add: timer_fired_def)
next
  case True
  from shape_single[OF s True] obtain w where i0: "i = 0" and ws: "workers st = [w]" by blast
  from timed_workerD[OF t ws] have sp: "spaced (MIN_INTERVAL_MS cfg) (trace st)"
    and wk: "worker_ok cfg st w" by simp_all
  show ?thesis
  proof (cases w)
    case (AwaitInterval it due)
    show ?thesis
    proof (cases "due \<le> clock st")
      case False
      with t ws i0 AwaitInterval show ?thesis by (simp add: timer_fired_def)
    next
      case due: True
      from wk AwaitInterval have so: "settled_ok st"
        and "trace st = [] \<or> lastSent st + MIN_INTERVAL_MS cfg \<le> due"
        by simp_all
      with due have "trace st = [] \<or> lastSent st + MIN_INTERVAL_MS cfg \<le> clock st" by auto
      from spaced_start[OF sp so this]
      have "timed cfg (continue_at 0 (Some (AwaitSend it), sendToExpo_begin it st))"
        using ws by (intro timedI_worker[where w = "AwaitSend it"])
          (simp_all add: sendToExpo_begin_def quiet_def del: spaced.simps)
      with ws i0 AwaitInterval due show ?thesis by (simp add: timer_fired_def)
    qed
  next
    case (AwaitSend it)
    with t ws i0 show ?thesis by (simp add: timer_fired_def)
  next
    case (AwaitStagger due)
    with wk have so: "settled_ok st" and ti: "timely st" by simp_all
    from timed_continue_drain[OF bound sp so ti ws] t ws i0 AwaitStagger
    show ?thesis by (simp add: timer_fired_def)
  qed
qed

lemma settled_ok_finish:
  "settled_ok (st\<lparr>trace := SendFinished it (clock st) # trace st, console := cs,
                 lastSent := clock st\<rparr>)"
  by (simp add: settled_ok_def)

lemma timely_finish:
  "timely (st\<lparr>trace := SendFinished it (clock st) # trace st, console := cs,
             lastSent := clock st\<rparr>)"
  by (simp add: timely_def)

lemma timed_fetch:
  assumes bound: "MIN_INTERVAL_MS cfg \<le> 2147483647" and s: "shape st" and t: "timed cfg st"
  shows "timed cfg (fetch_settled cfg i out st)"
proof (cases "i < length (workers st)")
  case False
  with t show ?thesis by (simp add: fetch_settled_def)
next
  case True
  from shape_single[OF s True] obtain w where i0: "i = 0" and ws: "workers st = [w]"
    and se: "sending st" by blast
  from timed_workerD[OF t ws] have sp: "spaced (MIN_INTERVAL_MS cfg) (trace st)"
    and wk: "worker_ok cfg st w" by simp_all
  show ?thesis
  proof (cases w)
    case (AwaitInterval it due)
    with t ws i0 show ?thesis by (simp add: fetch_settled_def)
  next
    case (AwaitStagger due)
    with t ws i0 show ?thesis by (simp add: fetch_settled_def)
  next
    case (AwaitSend it)
    with wk have nq: "\<not> quiet (trace st)" by simp
    note sf = spaced_finish[OF sp nq, of it "clock st"]
    have "timed cfg (after_send cfg 0 it out st)"
    proof (cases "sendToExpo_settle (token it) out")
      case (Inl err)
      have "timed cfg (continue_at 0 (None, st\<lparr>trace := SendFinished it (clock st) # trace st,
                console := QueueError err # console st\<rparr>))"
        using sf ws se by (intro timedI_stalled) (simp_all add: quiet_def del: spaced.simps)
      with Inl show ?thesis by (simp add: after_send_def Let_def)
    next
      case (Inr lines)
      let ?s1 = "st\<lparr>trace := SendFinished it (clock st) # trace st,
                     console := rev lines @ console st, lastSent := clock st\<rparr>"
      have so1: "settled_ok ?s1" by (rule settled_ok_finish)
      have ti1: "timely ?s1" by (rule timely_finish)
      have sp1: "spaced (MIN_INTERVAL_MS cfg) (trace ?s1)" using sf by (simp del: spaced.simps)
      have ws1: "workers ?s1 = [w]" using ws by simp
      show ?thesis
      proof (cases "STAGGER_MS cfg > 0 \<and> queue st \<noteq> []")
        case True
        have "timed cfg
                (continue_at 0 (Some (AwaitStagger (delay (clock st) (STAGGER_MS cfg))), ?s1))"
          using sp1 so1 ti1 ws1
          by (intro timedI_worker[where w = "AwaitStagger (delay (clock st) (STAGGER_MS cfg))"])
            (simp_all del: spaced.simps)
        with Inr True show ?thesis
          by (simp add: after_send_def Let_def)
      next
        case False
        with Inr timed_continue_drain[OF bound sp1 so1 ti1 ws1] show ?thesis
          by (auto simp add: after_send_def Let_def)
      qed
    qed
    with ws i0 AwaitSend show ?thesis by (simp add: fetch_settled_def)
  qed
qed

lemma timed_step:
  "MIN_INTERVAL_MS cfg \<le> 2147483647 \<Longrightarrow> shape st \<Longrightarrow> timed cfg st \<Longrightarrow>
   timed cfg (step cfg st ev)"
  by (cases ev) (simp_all add: timed_tick timed_enqueue timed_timer timed_fetch)

lemma timed_run:
  "MIN_INTERVAL_MS cfg \<le> 2147483647 \<Longrightarrow> shape st \<Longrightarrow> timed cfg st \<Longrightarrow>
   timed cfg (run cfg evs st)"
proof (induction evs arbitrary: st)
  case Nil
  then show ?case by (simp add: run_def)
next
  case (Cons ev evs)
  from Cons.IH[OF Cons.prems(1) shape_step[OF Cons.prems(2)] timed_step[OF Cons.prems]]
  show ?case by (simp add: run_def)
qed

lemma timed_reachable:
  "MIN_INTERVAL_MS cfg \<le> 2147483647 \<Longrightarrow> timed cfg (run cfg evs (init now))"
  by (rule timed_run) (simp_all add: shape_init timed_init)

lemma spaced_tail: "spaced m (ob # tr) \<Longrightarrow> spaced m tr"
proof (cases ob)
  case (SendStarted it b s)
  assume "spaced m (ob # tr)"
  with SendStarted show ?thesis
    by (cases tr; simp) (cases "hd tr"; simp)
next
  case (SendFinished it c)
  assume "spaced m (ob # tr)"
  with SendFinished show ?thesis
    by (cases tr; simp) (cases "hd tr"; simp)
qed

lemma spaced_suffix: "spaced m (pre @ tr) \<Longrightarrow> spaced m tr"
  by (induction pre) (auto dest: spaced_tail)

lemma spaced_gap:
  "spaced m (pre @ SendStarted it b s # SendFinished it' c # post) \<Longrightarrow> c + m \<le> s"
  by (drule spaced_suffix) simp

subsection \<open>Evaluation of the examples\<close>

lemmas eval_defs = run_def cfg0_def p0_def init_def enqueue_def processQueue_def push_all_def
  drain_def waitMs_def sendToExpo_begin_def fetch_settled_def after_send_def
  sendToExpo_settle_def sendToExpo_catch_def timer_fired_def expo_body_def Let_def delay_def

lemma trace_two_tokens:
  "trace (run cfg0 two_tokens (init 100000)) =
     [SendStarted \<lparr>token = JStr ''B'', payload = p0\<rparr> (expo_body (JStr ''B'') p0) 120000,
      SendFinished \<lparr>token = JStr ''A'', payload = p0\<rparr> 100000,
      SendStarted \<lparr>token = JStr ''A'', payload = p0\<rparr> (expo_body (JStr ''A'') p0) 100000]"
  by (simp add: two_tokens_def eval_defs)

lemma draining_eq:
  "draining =
     \<lparr>queue = [\<lparr>token = JStr ''B'', payload = p0\<rparr>], sending = True, lastSent = 0,
      clock = 100000, workers = [AwaitSend \<lparr>token = JStr ''A'', payload = p0\<rparr>],
      trace = [SendStarted \<lparr>token = JStr ''A'', payload = p0\<rparr> (expo_body (JStr ''A'') p0) 100000],
      console = []\<rparr>"
  by (simp add: draining_def run_def cfg0_def init_def enqueue_def processQueue_def push_all_def
      drain_def waitMs_def sendToExpo_begin_def)



subsection \<open>Before the first item\<close>

lemma fresh_step:
  "submitted ev = [] \<Longrightarrow>
   \<exists>d. step cfg ((init now)\<lparr>clock := t\<rparr>) ev = (init now)\<lparr>clock := t + int d\<rparr>"
proof (cases ev)
  case (Tick d)
  then show ?thesis by auto
next
  case (Enqueue tokens p)
  assume "submitted ev = []"
  with Enqueue have "tokens = []" by simp
  with Enqueue have "step cfg ((init now)\<lparr>clock := t\<rparr>) ev = (init now)\<lparr>clock := t + int 0\<rparr>"
    by (simp add: enqueue_def processQueue_def push_all_def drain_def init_def)
  then show ?thesis by blast
next
  case (TimerFired i)
  then have "step cfg ((init now)\<lparr>clock := t\<rparr>) ev = (init now)\<lparr>clock := t + int 0\<rparr>"
    by (simp add: timer_fired_def init_def)
  then show ?thesis by blast
next
  case (FetchSettled i out)
  then have "step cfg ((init now)\<lparr>clock := t\<rparr>) ev = (init now)\<lparr>clock := t + int 0\<rparr>"
    by (simp add: fetch_settled_def init_def)
  then show ?thesis by blast
qed

lemma fresh_run:
  "concat (map submitted evs) = [] \<Longrightarrow>
   \<exists>d. run cfg evs ((init now)\<lparr>clock := t\<rparr>) = (init now)\<lparr>clock := t + int d\<rparr>"
proof (induction evs arbitrary: t)
  case Nil
  have "run cfg [] ((init now)\<lparr>clock := t\<rparr>) = (init now)\<lparr>clock := t + int 0\<rparr>"
    by (simp add: run_def)
  then show ?case by blast
next
  case (Cons ev evs)
  then have "submitted ev = []" and rest: "concat (map submitted evs) = []" by simp_all
  from fresh_step[OF this(1)] obtain d where
    d: "step cfg ((init now)\<lparr>clock := t\<rparr>) ev = (init now)\<lparr>clock := t + int d\<rparr>" by blast
  from Cons.IH[OF rest, of "t + int d"] obtain d' where
    "run cfg evs ((init now)\<lparr>clock := t + int d\<rparr>) = (init now)\<lparr>clock := t + int d + int d'\<rparr>"
    by blast
  with d have "run cfg (ev # evs) ((init now)\<lparr>clock := t\<rparr>) = (init now)\<lparr>clock := t + int (d + d')\<rparr>"
    by (simp add: run_def add.assoc)
  then show ?case by blast
qed


subsection \<open>Nothing is lost between the queue and the sends\<close>

lemma attempts_begin [simp]: "attempts (sendToExpo_begin it st) = attempts st @ [it]"
  by (simp add: attempts_def sendToExpo_begin_def)

lemma attempts_queue [simp]: "attempts (st\<lparr>queue := q\<rparr>) = attempts st"
  by (simp add: attempts_def)

lemma attempts_sending [simp]: "attempts (st\<lparr>sending := b\<rparr>) = attempts st"
  by (simp add: attempts_def)

lemma attempts_workers [simp]: "attempts (st\<lparr>workers := ws\<rparr>) = attempts st"
  by (simp add: attempts_def)

lemma attempts_clock [simp]: "attempts (st\<lparr>clock := t\<rparr>) = attempts st"
  by (simp add: attempts_def)

lemma attempts_console [simp]: "attempts (st\<lparr>console := cs\<rparr>) = attempts st"
  by (simp add: attempts_def)

lemma attempts_lastSent [simp]: "attempts (st\<lparr>lastSent := t\<rparr>) = attempts st"
  by (simp add: attempts_def)

lemma attempts_finished [simp]:
  "attempts (st\<lparr>trace := SendFinished it c # trace st\<rparr>) = attempts st"
  by (simp add: attempts_def)

lemma workers_begin [simp]: "workers (sendToExpo_begin it st) = workers st"
  by (simp add: sendToExpo_begin_def)

lemma queue_begin [simp]: "queue (sendToExpo_begin it st) = queue st"
  by (simp add: sendToExpo_begin_def)

lemma drain_conserve:
  assumes "drain cfg st = (wo, st')"
  shows "attempts st' @ held_by wo @ queue st' = attempts st @ queue st \<and>
         workers st' = workers st"
proof (cases "queue st")
  case Nil
  with assms drain_Nil[OF Nil, of cfg] show ?thesis by (auto simp: held_by_def)
next
  case (Cons it rest)
  show ?thesis
  proof (cases "0 < waitMs cfg st")
    case True
    with assms drain_wait[OF Cons True] Cons show ?thesis by (auto simp: held_by_def)
  next
    case False
    with assms drain_send[OF Cons False] Cons show ?thesis by (auto simp: held_by_def)
  qed
qed

lemma conserve_spawn:
  assumes "workers st = []"
  shows "attempts (spawn (drain cfg st)) @ pending (spawn (drain cfg st)) =
         attempts st @ queue st"
proof (cases "drain cfg st")
  case (Pair wo st')
  from drain_conserve[OF Pair] assms Pair show ?thesis
    by (cases wo) (simp_all add: pending_def held_by_def)
qed

lemma conserve_continue:
  assumes "workers st = [w0]"
  shows "attempts (continue_at 0 (drain cfg st)) @ pending (continue_at 0 (drain cfg st)) =
         attempts st @ queue st"
proof (cases "drain cfg st")
  case (Pair wo st')
  from drain_conserve[OF Pair] assms Pair show ?thesis
    by (cases wo) (simp_all add: pending_def held_by_def)
qed

lemma conserve_enqueue:
  assumes i: "shape st"
  shows "attempts (enqueue cfg tokens p st) @ pending (enqueue cfg tokens p st) =
         attempts st @ pending st @ map (\<lambda>t. \<lparr>token = t, payload = p\<rparr>) tokens"
proof (cases "sending st")
  case True
  then show ?thesis by (simp add: enqueue_def processQueue_def push_all_def pending_def)
next
  case False
  from shape_idle[OF i False] have ws: "workers st = []" and q: "queue st = []" by simp_all
  let ?s = "(push_all tokens p st)\<lparr>sending := True\<rparr>"
  have "workers ?s = []" using ws by (simp add: push_all_def)
  from conserve_spawn[OF this, of cfg] False ws q show ?thesis
    by (simp add: enqueue_def processQueue_def pending_def push_all_def)
qed

lemma conserve_timer:
  assumes i: "shape st"
  shows "attempts (timer_fired cfg i st) @ pending (timer_fired cfg i st) =
         attempts st @ pending st"
proof (cases "i < length (workers st)")
  case False
  then show ?thesis by (simp add: timer_fired_def)
next
  case True
  from shape_single[OF i True] obtain w where i0: "i = 0" and ws: "workers st = [w]" by blast
  show ?thesis
  proof (cases w)
    case (AwaitInterval it due)
    with ws i0 show ?thesis by (simp add: timer_fired_def pending_def)
  next
    case (AwaitSend it)
    with ws i0 show ?thesis by (simp add: timer_fired_def)
  next
    case (AwaitStagger due)
    with ws i0 conserve_continue[OF ws, of cfg] show ?thesis
      by (simp add: timer_fired_def pending_def)
  qed
qed

lemma conserve_fetch:
  assumes i: "shape st"
  shows "attempts (fetch_settled cfg i out st) @ pending (fetch_settled cfg i out st) =
         attempts st @ pending st"
proof (cases "i < length (workers st)")
  case False
  then show ?thesis by (simp add: fetch_settled_def)
next
  case True
  from shape_single[OF i True] obtain w where i0: "i = 0" and ws: "workers st = [w]" by blast
  show ?thesis
  proof (cases w)
    case (AwaitInterval it due)
    with ws i0 show ?thesis by (simp add: fetch_settled_def)
  next
    case (AwaitStagger due)
    with ws i0 show ?thesis by (simp add: fetch_settled_def)
  next
    case (AwaitSend it)
    have "attempts (after_send cfg 0 it out st) @ pending (after_send cfg 0 it out st) =
          attempts st @ queue st"
    proof (cases "sendToExpo_settle (token it) out")
      case (Inl err)
      with ws show ?thesis by (simp add: after_send_def Let_def pending_def)
    next
      case (Inr lines)
      let ?s1 = "st\<lparr>trace := SendFinished it (clock st) # trace st,
                     console := rev lines @ console st, lastSent := clock st\<rparr>"
      have ws1: "workers ?s1 = [w]" using ws by simp
      have a1: "attempts ?s1 = attempts st" by (simp add: attempts_def)
      show ?thesis
      proof (cases "STAGGER_MS cfg > 0 \<and> queue st \<noteq> []")
        case True
        with Inr ws a1 show ?thesis by (simp add: after_send_def Let_def pending_def)
      next
        case False
        with Inr conserve_continue[OF ws1, of cfg] a1 show ?thesis
          by (auto simp add: after_send_def Let_def)
      qed
    qed
    with ws i0 AwaitSend show ?thesis by (simp add: fetch_settled_def pending_def)
  qed
qed

lemma conserve_step:
  "shape st \<Longrightarrow>
   attempts (step cfg st ev) @ pending (step cfg st ev) = attempts st @ pending st @ submitted ev"
proof (cases ev)
  case (Tick d)
  then show ?thesis by (simp add: pending_def)
qed (simp_all add: conserve_enqueue conserve_timer conserve_fetch)

lemma conserve_run:
  "shape st \<Longrightarrow>
   attempts (run cfg evs st) @ pending (run cfg evs st) =
   attempts st @ pending st @ concat (map submitted evs)"
proof (induction evs arbitrary: st)
  case Nil
  then show ?case by (simp add: run_def)
next
  case (Cons ev evs)
  from Cons.IH[OF shape_step[OF Cons.prems, of cfg ev]] conserve_step[OF Cons.prems, of cfg ev]
  show ?case by (simp add: run_def)
qed

lemma fifo_conservation:
  "attempts (run cfg evs (init now)) @ pending (run cfg evs (init now)) =
   concat (map submitted evs)"
  using conserve_run[OF shape_init, of cfg evs now]
  by (simp add: init_def attempts_def pending_def)


subsection \<open>A stalled worker\<close>

lemma run_append: "run cfg (evs @ evs') st = run cfg evs' (run cfg evs st)"
  by (simp add: run_def)

lemma stalled_step:
  assumes "stalled st"
  shows "stalled (step cfg st ev) \<and> trace (step cfg st ev) = trace st \<and>
         queue (step cfg st ev) = queue st @ submitted ev"
  using assms
  by (cases ev)
     (simp_all add: stalled_def enqueue_def processQueue_def push_all_def timer_fired_def
        fetch_settled_def)

lemma stalled_run:
  "stalled st \<Longrightarrow>
   stalled (run cfg evs st) \<and> trace (run cfg evs st) = trace st \<and>
   queue (run cfg evs st) = queue st @ concat (map submitted evs)"
proof (induction evs arbitrary: st)
  case Nil
  then show ?case by (simp add: run_def)
next
  case (Cons ev evs)
  from stalled_step[OF Cons.prems, of cfg ev] Cons.IH[of "step cfg st ev"]
  show ?case by (simp add: run_def)
qed

lemma string_token_never_throws: "\<exists>lines. sendToExpo_settle (JStr s) out = Inr lines"
  by (cases out) (simp_all add: sendToExpo_settle_def sendToExpo_catch_def)

lemma string_token_worker_goes_on:
  assumes ws: "workers st = [AwaitSend it]" and tk: "token it = JStr s"
    and q: "queue st = nxt # rest"
  shows "lastSent (fetch_settled cfg 0 out st) = clock st \<and>
         (\<exists>w. workers (fetch_settled cfg 0 out st) = [w]) \<and>
         attempts (fetch_settled cfg 0 out st) @ pending (fetch_settled cfg 0 out st) =
           attempts st @ nxt # rest"
proof -
  from string_token_never_throws[of s out] tk obtain lines where
    ok: "sendToExpo_settle (token it) out = Inr lines" by auto
  show ?thesis
  proof (cases "0 < STAGGER_MS cfg")
    case True
    with ws q ok show ?thesis
      by (simp add: fetch_settled_def after_send_def Let_def pending_def)
  next
    case False
    with ws q ok show ?thesis
      by (simp add: fetch_settled_def after_send_def Let_def pending_def drain_def
          sendToExpo_begin_def attempts_def)
  qed
qed

lemma run_number_token:
  "run cfg0 number_token (init 100000) =
     \<lparr>queue = [\<lparr>token = JStr ''X'', payload = p0\<rparr>], sending = True, lastSent = 0,
      clock = 100000, workers = [],
      trace = [SendFinished \<lparr>token = JNum 5, payload = p0\<rparr> 100000,
               SendStarted \<lparr>token = JNum 5, payload = p0\<rparr> (expo_body (JNum 5) p0) 100000],
      console = [QueueError (TypeError ''token.substring is not a function'')]\<rparr>"
  by (simp add: number_token_def run_def cfg0_def init_def enqueue_def processQueue_def
      push_all_def drain_def waitMs_def sendToExpo_begin_def fetch_settled_def after_send_def
      sendToExpo_settle_def sendToExpo_catch_def Let_def)

lemma run_mixed_batch:
  "run cfg0 mixed_batch (init 100000) =
     \<lparr>queue = [\<lparr>token = JStr ''X'', payload = p0\<rparr>], sending = True, lastSent = 0,
      clock = 100000, workers = [],
      trace = [SendFinished \<lparr>token = JNum 5, payload = p0\<rparr> 100000,
               SendStarted \<lparr>token = JNum 5, payload = p0\<rparr> (expo_body (JNum 5) p0) 100000],
      console = [QueueError (TypeError ''token.substring is not a function'')]\<rparr>"
  by (simp add: mixed_batch_def run_def cfg0_def init_def enqueue_def processQueue_def
      push_all_def drain_def waitMs_def sendToExpo_begin_def fetch_settled_def after_send_def
      sendToExpo_settle_def sendToExpo_catch_def Let_def)


subsection \<open>The handler\<close>

lemma push_settled_202:
  assumes "fst (fst (push_settled cfg r st)) = 202"
  shows "\<exists>b to p. r = Inr b \<and> get_prop b ''to'' = Inr to \<and> build_payload b = Inr p \<and>
           normalizeTokens to \<noteq> [] \<and>
           push_settled cfg r st =
             (sendJson 202 (JObj [(''queued'', JNum (int (length (normalizeTokens to))))]),
              enqueue cfg (normalizeTokens to) p st)"
  using assms
  by (auto simp: push_settled_def push_body_def try_bind_def sendJson_def Let_def
      split: sum.splits if_splits)

lemma normalizeTokens_cases:
  "normalizeTokens (JArr xs) = filter truthy xs"
  "normalizeTokens (JStr s) = (if s = [] then [] else [JStr s])"
  "normalizeTokens JUndefined = []"
  "normalizeTokens JNull = []"
  by (simp_all add: normalizeTokens_def)

lemma push_two_tokens:
  "push_settled cfg0 (Inr two_token_body) (init 100000) =
     (sendJson 202 (JObj [(''queued'', JNum 2)]),
      enqueue cfg0 [JStr ''A'', JStr ''B''] p0 (init 100000))"
  by (simp add: two_token_body_def push_settled_def push_body_def try_bind_def
      normalizeTokens_def build_payload_def js_or_def p0_def)

lemma push_number_token:
  "push_settled cfg (Inr number_token_body) st =
     ((202, JObj [(''queued'', JNum 1)]), enqueue cfg [JNum 5] p0 st)"
  by (simp add: number_token_body_def push_settled_def push_body_def try_bind_def
      normalizeTokens_def build_payload_def js_or_def p0_def sendJson_def)

lemma push_mixed_batch:
  "push_settled cfg (Inr mixed_batch_body) st =
     ((202, JObj [(''queued'', JNum 2)]), enqueue cfg [JNum 5, JStr ''X''] p0 st)"
  by (simp add: mixed_batch_body_def push_settled_def push_body_def try_bind_def
      normalizeTokens_def build_payload_def js_or_def p0_def sendJson_def)



lemma push_single_token:
  "push_settled cfg (Inr single_token_body) st =
     (sendJson 202 (JObj [(''queued'', JNum 1)]), enqueue cfg [JStr ''X''] p0 st)"
  by (simp add: single_token_body_def push_settled_def push_body_def try_bind_def
      normalizeTokens_def build_payload_def js_or_def p0_def)





subsection \<open>The size check of the body\<close>

lemma js_length_append [simp]: "js_length (xs @ ys) = js_length xs + js_length ys"
  by (simp add: js_length_def)

lemma js_length_replicate [simp]: "js_length (replicate n c) = n * utf16_units c"
  by (simp add: js_length_def sum_list_replicate)

lemma rejected_stays: "foldl on_data (Rejected e) chunks = Rejected e"
  by (induction chunks) simp_all

lemma read_all:
  "js_length acc \<le> 1024 * 16 \<Longrightarrow>
   foldl on_data (Reading acc) chunks =
     (if js_length (acc @ concat chunks) \<le> 1024 * 16 then Reading (acc @ concat chunks)
      else Rejected (Error ''Payload too large''))"
proof (induction chunks arbitrary: acc)
  case Nil
  then show ?case by simp
next
  case (Cons c cs)
  show ?case
  proof (cases "1024 * 16 < js_length (acc @ c)")
    case True
    then show ?thesis by (simp add: rejected_stays)
  next
    case False
    then have le: "js_length (acc @ c) \<le> 1024 * 16" by simp
    from Cons.IH[OF le] False show ?thesis by simp
  qed
qed

lemma parseBody_accepts:
  "js_length (concat chunks) \<le> 1024 * 16 \<Longrightarrow>
   parseBody JSON_parse chunks =
     (if concat chunks = [] then Inr (JObj []) else JSON_parse (concat chunks), False)"
  using read_all[of "[]" chunks] by (simp add: parseBody_def js_length_def)

lemma parseBody_rejects:
  "1024 * 16 < js_length (concat chunks) \<Longrightarrow>
   parseBody JSON_parse chunks = (Inl (Error ''Payload too large''), True)"
  using read_all[of "[]" chunks] by (simp add: parseBody_def js_length_def)

lemma ascii_sizes:
  "list_all (\<lambda>c. c < 0x80) s \<Longrightarrow> sum_list (map utf8_bytes s) = js_length s"
  by (induction s) (simp_all add: js_length_def utf8_bytes_def utf16_units_def)

lemma units_le_bytes: "js_length s \<le> sum_list (map utf8_bytes s)"
  by (induction s) (simp_all add: js_length_def utf8_bytes_def utf16_units_def)

subsection \<open>The request listener\<close>

lemma server_push:
  "req_method req = ''POST'' \<Longrightarrow>
   URL_pathname (req_url req) (''http://'' @ req_host req) = Inr ''/push'' \<Longrightarrow>
   server cfg JSON_parse URL_pathname req st =
     Inr (push_handler cfg JSON_parse (req_chunks req) st)"
  by (simp add: server_def try_bind_def)

lemma push_handler_parsed:
  "js_length (concat chunks) \<le> 1024 * 16 \<Longrightarrow> concat chunks \<noteq> [] \<Longrightarrow>
   push_handler cfg JSON_parse chunks st =
     (Some (fst (push_settled cfg (JSON_parse (concat chunks)) st)),
      snd (push_settled cfg (JSON_parse (concat chunks)) st))"
  by (simp add: push_handler_def parseBody_accepts received_def del: concat_eq_Nil_conv
      split: prod.split)

lemma push_handler_oversized:
  "1024 * 16 < js_length (concat chunks) \<Longrightarrow>
   push_handler cfg JSON_parse chunks st =
     (None, st\<lparr>console := HandleFailed (Error ''Payload too large'') # console st\<rparr>)"
  by (simp add: push_handler_def parseBody_rejects received_def push_settled_def try_bind_def
      sendJson_def)

lemma server_parsed:
  assumes "req_method req = ''POST''"
    and "URL_pathname (req_url req) (''http://'' @ req_host req) = Inr ''/push''"
    and "js_length (concat (req_chunks req)) \<le> 1024 * 16"
    and "JSON_parse (concat (req_chunks req)) = Inr b" and "concat (req_chunks req) \<noteq> []"
  shows "server cfg JSON_parse URL_pathname req st =
     Inr (Some (fst (push_settled cfg (Inr b) st)), snd (push_settled cfg (Inr b) st))"
  using assms by (simp add: server_push push_handler_parsed)

lemma server_202:
  assumes "server cfg JSON_parse URL_pathname req st = Inr (Some (202, obj), st')"
  shows "\<exists>b to p. req_method req = ''POST'' \<and>
           JSON_parse (concat (req_chunks req)) = Inr b \<and>
           js_length (concat (req_chunks req)) \<le> 1024 * 16 \<and>
           get_prop b ''to'' = Inr to \<and> build_payload b = Inr p \<and>
           normalizeTokens to \<noteq> [] \<and>
           obj = JObj [(''queued'', JNum (int (length (normalizeTokens to))))] \<and>
           st' = enqueue cfg (normalizeTokens to) p st"
proof -
  from assms obtain pathname where
    pn: "URL_pathname (req_url req) (''http://'' @ req_host req) = Inr pathname"
    by (cases "URL_pathname (req_url req) (''http://'' @ req_host req)")
       (simp_all add: server_def try_bind_def)
  with assms have m: "req_method req = ''POST''" and p: "pathname = ''/push''"
    and h: "push_handler cfg JSON_parse (req_chunks req) st = (Some (202, obj), st')"
    by (auto simp: server_def try_bind_def received_def sendJson_def split: if_splits)
  let ?text = "concat (req_chunks req)"
  have small: "js_length ?text \<le> 1024 * 16"
  proof (rule ccontr)
    assume "\<not> js_length ?text \<le> 1024 * 16"
    then have "1024 * 16 < js_length ?text" by simp
    from push_handler_oversized[OF this, of cfg JSON_parse st] h show False by simp
  qed
  let ?r = "if ?text = [] then Inr (JObj []) else JSON_parse ?text"
  from h small have ps: "push_settled cfg ?r st = ((202, obj), st')"
    by (auto simp: push_handler_def parseBody_accepts received_def
        simp del: concat_eq_Nil_conv split: prod.splits if_splits)
  then have "fst (fst (push_settled cfg ?r st)) = 202" by simp
  from push_settled_202[OF this] obtain b to p where
    r: "?r = Inr b" and g: "get_prop b ''to'' = Inr to" and bp: "build_payload b = Inr p"
    and ne: "normalizeTokens to \<noteq> []"
    and eq: "push_settled cfg ?r st =
             (sendJson 202 (JObj [(''queued'', JNum (int (length (normalizeTokens to))))]),
              enqueue cfg (normalizeTokens to) p st)"
    by blast
  have "?text \<noteq> []"
  proof
    assume "?text = []"
    with r have "b = JObj []" by (simp del: concat_eq_Nil_conv)
    with g ne show False by (auto simp: normalizeTokens_def)
  qed
  with r have "JSON_parse ?text = Inr b" by (simp del: concat_eq_Nil_conv)
  with m small g bp ne eq ps show ?thesis by (auto simp: sendJson_def)
qed

subsection \<open>The example requests\<close>

lemma trace_two_tokens_early:
  "trace (run long_interval two_tokens_early (init 1700000000000)) =
     [SendStarted \<lparr>token = JStr ''B'', payload = p0\<rparr> (expo_body (JStr ''B'') p0) 1700000003001,
      SendFinished \<lparr>token = JStr ''A'', payload = p0\<rparr> 1700000000000,
      SendStarted \<lparr>token = JStr ''A'', payload = p0\<rparr> (expo_body (JStr ''A'') p0) 1700000000000]"
  by (simp add: two_tokens_early_def long_interval_def run_def p0_def init_def enqueue_def
      processQueue_def push_all_def drain_def waitMs_def sendToExpo_begin_def fetch_settled_def
      after_send_def sendToExpo_settle_def timer_fired_def expo_body_def Let_def delay_def)

lemma push_three_entries:
  "push_settled cfg (Inr three_entry_body) st =
     ((202, JObj [(''queued'', JNum 2)]), enqueue cfg [JStr ''A'', JStr ''B''] p0 st)"
  by (simp add: three_entry_body_def push_settled_def push_body_def try_bind_def
      normalizeTokens_def build_payload_def js_or_def p0_def sendJson_def)

lemma example_push_request:
  "req_method (push_request chunks) = ''POST'' \<and>
   example_pathname (req_url (push_request chunks)) (''http://'' @ req_host (push_request chunks)) =
     Inr ''/push'' \<and>
   req_chunks (push_request chunks) = chunks"
  by (simp add: push_request_def example_pathname_def)

lemma example_texts:
  "js_length text_only_title = 24" "js_length text_only_to = 12"
  "js_length text_single_token = 33" "js_length text_two_token = 44"
  "js_length text_three_entry = 42"
  by (simp_all add: js_length_def utf16_units_def text_only_title_def text_only_to_def
      text_single_token_def text_two_token_def text_three_entry_def)

lemma example_parses:
  "example_parse text_only_title = Inr only_title_body"
  "example_parse text_only_to = Inr only_to"
  "example_parse text_single_token = Inr single_token_body"
  "example_parse text_two_token = Inr two_token_body"
  "example_parse text_three_entry = Inr three_entry_body"
  by (simp_all add: example_parse_def text_only_title_def text_only_to_def
      text_single_token_def text_two_token_def text_three_entry_def)

lemma example_nonempty:
  "text_only_title \<noteq> []" "text_only_to \<noteq> []" "text_single_token \<noteq> []"
  "text_two_token \<noteq> []" "text_three_entry \<noteq> []"
  by (simp_all add: text_only_title_def text_only_to_def
      text_single_token_def text_two_token_def text_three_entry_def)

lemma example_server:
  assumes "js_length text \<le> 1024 * 16" and "example_parse text = Inr b" and "text \<noteq> []"
  shows "server cfg example_parse example_pathname (push_request [text]) st =
     Inr (Some (fst (push_settled cfg (Inr b) st)), snd (push_settled cfg (Inr b) st))"
  using assms example_push_request[of "[text]"]
  by (intro server_parsed) simp_all

lemma cjk_sizes:
  "byte_size [cjk_body] = 18043" "js_length cjk_body = 6043" "cjk_body \<noteq> []"
  by (simp_all add: byte_size_def cjk_body_def utf8_bytes_def js_length_def utf16_units_def
      sum_list_replicate)

lemma example_parse_cjk: "example_parse cjk_body = Inr cjk_parsed"
  by (simp add: example_parse_def cjk_body_def text_only_title_def text_only_to_def
      text_single_token_def text_two_token_def text_three_entry_def)

lemma push_cjk:
  "push_settled cfg (Inr cjk_parsed) st =
     ((202, JObj [(''queued'', JNum 1)]), enqueue cfg [JStr ''X''] p0 st)"
  by (simp add: cjk_parsed_def push_settled_def push_body_def try_bind_def
      normalizeTokens_def build_payload_def js_or_def p0_def sendJson_def)

lemma health_ignores_body:
  "server cfg example_parse example_pathname (health_request chunks) st =
     Inr (Some (200, JObj [(''status'', JStr ''ok''), (''queued'', JNum (int (length (queue st))))]),
          st)"
  by (simp add: server_def try_bind_def health_request_def example_pathname_def received_def
      sendJson_def)

text \<open>
  What the caller of an oversized \<open>POST /push\<close> receives, and a request that ends
  the process.
\<close>

lemma oversized_gets_no_response:
  assumes "req_method req = ''POST''"
    and "URL_pathname (req_url req) (''http://'' @ req_host req) = Inr ''/push''"
    and "16 * 1024 < js_length (concat (req_chunks req))"
  shows "server cfg JSON_parse URL_pathname req st =
     Inr (None, st\<lparr>console := HandleFailed (Error ''Payload too large'') # console st\<rparr>)"
  using assms by (simp add: server_push push_handler_oversized)

lemma unparsable_target_ends_process:
  "server cfg JSON_parse example_pathname
     \<lparr>req_method = ''GET'', req_url = ''//'', req_host = ''localhost:8080'', req_chunks = []\<rparr> st =
   Inl (TypeError ''Invalid URL'')"
  by (simp add: server_def try_bind_def example_pathname_def)

section \<open>The claims\<close>

text \<open>
  C3.  In every reachable state at most one invocation of \<open>processQueue\<close> is
  suspended in the drain loop, and one is only while \<open>sending\<close> is set; whenever
  \<open>sending\<close> is clear the queue is empty.  \<open>processQueue\<close> returns at once while
  the flag is set and otherwise sets it before the loop starts; the loop clears it
  only when it finds the queue empty.  While the flag is set \<open>enqueue\<close> only appends
  to the queue.
\<close>

theorem single_worker:
  "length (workers (run cfg evs (init now))) \<le> 1 \<and>
   (workers (run cfg evs (init now)) \<noteq> [] \<longrightarrow> sending (run cfg evs (init now))) \<and>
   (\<not> sending (run cfg evs (init now)) \<longrightarrow> queue (run cfg evs (init now)) = []) \<and>
   (sending st \<longrightarrow>
      processQueue cfg st = st \<and>
      enqueue cfg tokens p st =
        st\<lparr>queue := queue st @ map (\<lambda>t. \<lparr>token = t, payload = p\<rparr>) tokens\<rparr>) \<and>
   (\<not> sending st \<longrightarrow> processQueue cfg st = spawn (drain cfg (st\<lparr>sending := True\<rparr>))) \<and>
   sending (snd (drain cfg st)) = (queue st \<noteq> [] \<and> sending st)"
proof -
  let ?r = "run cfg evs (init now)"
  have i: "shape ?r" by (rule shape_reachable)
  have a: "length (workers ?r) \<le> 1" using i by (simp add: shape_def)
  have b: "workers ?r \<noteq> [] \<longrightarrow> sending ?r" using i by (simp add: shape_def)
  have c: "\<not> sending ?r \<longrightarrow> queue ?r = []"
  proof
    assume ns: "\<not> sending ?r"
    with i show "queue ?r = []" by (simp add: shape_def)
  qed
  have d: "sending st \<longrightarrow>
      processQueue cfg st = st \<and>
      enqueue cfg tokens p st =
        st\<lparr>queue := queue st @ map (\<lambda>t. \<lparr>token = t, payload = p\<rparr>) tokens\<rparr>"
    by (simp add: processQueue_def enqueue_def push_all_def)
  have e: "\<not> sending st \<longrightarrow> processQueue cfg st = spawn (drain cfg (st\<lparr>sending := True\<rparr>))"
    by (simp add: processQueue_def)
  from a b c d e drain_flag[of cfg st] show ?thesis by blast
qed

theorem single_worker_witness:
  "workers (run cfg0 [Enqueue [JStr ''A'', JStr ''B''] p0] (init 100000)) \<noteq> [] \<and>
   sending (run cfg0 [Enqueue [JStr ''A'', JStr ''B''] p0] (init 100000)) \<and>
   sending draining \<and>
   queue (enqueue cfg0 [JStr ''C''] p0 draining) =
     [\<lparr>token = JStr ''B'', payload = p0\<rparr>, \<lparr>token = JStr ''C'', payload = p0\<rparr>] \<and>
   \<not> sending (init 0) \<and> queue (run cfg0 [] (init 0)) = [] \<and>
   processQueue cfg0 (init 0) = init 0"
  using single_worker[of cfg0 "[Enqueue [JStr ''A'', JStr ''B''] p0]" 100000 draining
      "[JStr ''C'']" p0]
    single_worker[of cfg0 "[]" 0 "init 0" "[]" p0]
  by (simp add: draining_eq draining_def[symmetric]) (simp add: init_def run_def drain_def)

text \<open>
  C10.  \<open>lastSent\<close> starts at 0.  As long as nothing has been enqueued since the
  start and the clock at the start is at least \<open>MIN_INTERVAL_MS\<close>, the computed wait
  is 0 and the first token of the first \<open>enqueue\<close> is sent within that call, at the
  current clock value.
\<close>

theorem first_send_not_delayed:
  "lastSent (init now) = 0 \<and>
   (concat (map submitted evs) = [] \<and> MIN_INTERVAL_MS cfg \<le> now \<longrightarrow>
      waitMs cfg (run cfg evs (init now)) = 0 \<and>
      trace (enqueue cfg (t # ts) p (run cfg evs (init now))) =
        [SendStarted \<lparr>token = t, payload = p\<rparr> (expo_body t p) (clock (run cfg evs (init now)))] \<and>
      workers (enqueue cfg (t # ts) p (run cfg evs (init now))) =
        [AwaitSend \<lparr>token = t, payload = p\<rparr>])"
proof -
  have "lastSent (init now) = 0" by (simp add: init_def)
  moreover
  { assume ns: "concat (map submitted evs) = []" and m: "MIN_INTERVAL_MS cfg \<le> now"
    have "init now = (init now)\<lparr>clock := now\<rparr>" by (simp add: init_def)
    with fresh_run[OF ns, of cfg now now] obtain d where
      r: "run cfg evs (init now) = (init now)\<lparr>clock := now + int d\<rparr>" by auto
    have "waitMs cfg (run cfg evs (init now)) = 0 \<and>
      trace (enqueue cfg (t # ts) p (run cfg evs (init now))) =
        [SendStarted \<lparr>token = t, payload = p\<rparr> (expo_body t p) (clock (run cfg evs (init now)))] \<and>
      workers (enqueue cfg (t # ts) p (run cfg evs (init now))) =
        [AwaitSend \<lparr>token = t, payload = p\<rparr>]"
      unfolding r using m
      by (simp add: enqueue_def processQueue_def push_all_def drain_def sendToExpo_begin_def
          init_def waitMs_def Let_def)
  }
  ultimately show ?thesis by blast
qed

theorem first_send_not_delayed_witness:
  "concat (map submitted [Tick 5, Enqueue [] p0, TimerFired 0]) = [] \<and>
   MIN_INTERVAL_MS cfg0 \<le> 100000 \<and>
   trace (enqueue cfg0 [JStr ''A'', JStr ''B''] p0
            (run cfg0 [Tick 5, Enqueue [] p0, TimerFired 0] (init 100000))) =
     [SendStarted \<lparr>token = JStr ''A'', payload = p0\<rparr> (expo_body (JStr ''A'') p0) 100005]"
  using first_send_not_delayed[of 100000 "[Tick 5, Enqueue [] p0, TimerFired 0]" cfg0
      "JStr ''A''" "[JStr ''B'']" p0]
  by (simp add: cfg0_def)
     (simp add: run_def init_def enqueue_def processQueue_def push_all_def drain_def
        timer_fired_def waitMs_def Let_def sendToExpo_begin_def)

text \<open>
  C2.  Evaluation at a failing input.  A request whose token is the number 5 is
  accepted; when its fetch settles, \<open>sendToExpo\<close> throws, \<open>processQueue\<close> rejects
  with \<open>sending\<close> still set, and no later call of \<open>processQueue\<close> starts a worker.
  The token \<open>X\<close> of the next request is queued and, whatever events follow, never
  sent: two tokens were submitted and one delivery attempt is ever made.
\<close>

theorem token_after_number_token_never_sent:
  "push_settled cfg0 (Inr number_token_body) st =
     ((202, JObj [(''queued'', JNum 1)]), step cfg0 st (Enqueue [JNum 5] p0)) \<and>
   push_settled cfg0 (Inr single_token_body) st =
     ((202, JObj [(''queued'', JNum 1)]), step cfg0 st (Enqueue [JStr ''X''] p0)) \<and>
   concat (map submitted number_token) =
     [\<lparr>token = JNum 5, payload = p0\<rparr>, \<lparr>token = JStr ''X'', payload = p0\<rparr>] \<and>
   attempts (run cfg0 (number_token @ evs) (init 100000)) = [\<lparr>token = JNum 5, payload = p0\<rparr>] \<and>
   queue (run cfg0 (number_token @ evs) (init 100000)) =
     \<lparr>token = JStr ''X'', payload = p0\<rparr> # concat (map submitted evs)"
proof -
  have st: "stalled (run cfg0 number_token (init 100000))"
    by (simp add: run_number_token stalled_def)
  from stalled_run[OF st, of cfg0 evs] show ?thesis
    by (simp add: run_append attempts_def run_number_token push_number_token
        push_single_token sendJson_def)
       (simp add: number_token_def)
qed

text \<open>
  C6.  Evaluation at a failing input.  The body \<open>{to: 5, title: "t", body: "b"}\<close> is
  accepted with 202 and a request for the token 5 is issued.  Whether the fetch then
  returns a response or fails, \<open>token.substring\<close> throws a TypeError in the
  \<open>try\<close> block or in the \<open>catch\<close> block, and the exception leaves \<open>sendToExpo\<close>.
\<close>

theorem sendToExpo_throws_on_number_token:
  "push_settled cfg0 (Inr number_token_body) (init 100000) =
     ((202, JObj [(''queued'', JNum 1)]), enqueue cfg0 [JNum 5] p0 (init 100000)) \<and>
   workers (enqueue cfg0 [JNum 5] p0 (init 100000)) = [AwaitSend \<lparr>token = JNum 5, payload = p0\<rparr>] \<and>
   sendToExpo_settle (JNum 5) (Responded 200 ''ok'') =
     Inl (TypeError ''token.substring is not a function'') \<and>
   sendToExpo_settle (JNum 5) (Failed ''network'') =
     Inl (TypeError ''token.substring is not a function'')"
  by (simp add: push_number_token sendToExpo_settle_def sendToExpo_catch_def)
     (simp add: cfg0_def init_def enqueue_def processQueue_def push_all_def drain_def waitMs_def
        sendToExpo_begin_def)

text \<open>
  C7.  Evaluation at a failing input.  A request with the tokens 5 and \<open>X\<close>: after
  the send for 5 has failed, the worker is gone with \<open>sending\<close> still set, the error
  is logged by the handler attached in \<open>enqueue\<close> (the process goes on), and
  whatever events follow, \<open>X\<close> stays at the head of the queue and is never sent.
\<close>

theorem worker_stops_after_failed_send:
  "push_settled cfg0 (Inr mixed_batch_body) st =
     ((202, JObj [(''queued'', JNum 2)]), step cfg0 st (Enqueue [JNum 5, JStr ''X''] p0)) \<and>
   run cfg0 mixed_batch (init 100000) =
     \<lparr>queue = [\<lparr>token = JStr ''X'', payload = p0\<rparr>], sending = True, lastSent = 0,
      clock = 100000, workers = [],
      trace = [SendFinished \<lparr>token = JNum 5, payload = p0\<rparr> 100000,
               SendStarted \<lparr>token = JNum 5, payload = p0\<rparr> (expo_body (JNum 5) p0) 100000],
      console = [QueueError (TypeError ''token.substring is not a function'')]\<rparr> \<and>
   workers (run cfg0 (mixed_batch @ evs) (init 100000)) = [] \<and>
   attempts (run cfg0 (mixed_batch @ evs) (init 100000)) = [\<lparr>token = JNum 5, payload = p0\<rparr>] \<and>
   queue (run cfg0 (mixed_batch @ evs) (init 100000)) =
     \<lparr>token = JStr ''X'', payload = p0\<rparr> # concat (map submitted evs)"
proof -
  have st: "stalled (run cfg0 mixed_batch (init 100000))"
    by (simp add: run_mixed_batch stalled_def)
  from stalled_run[OF st, of cfg0 evs] show ?thesis
    by (simp add: run_append attempts_def run_mixed_batch stalled_def push_mixed_batch)
qed

text \<open>
  C5, as the specification states it, fails: with the default intervals of 20000 ms
  and 3000 ms and timers that fire when due, the second token of a batch is sent
  20000 ms after the first send was completed, not 23000 ms.
\<close>

theorem stagger_not_additive_counterexample:
  "trace (run cfg0 two_tokens (init 100000)) =
     [SendStarted \<lparr>token = JStr ''B'', payload = p0\<rparr> (expo_body (JStr ''B'') p0) 120000,
      SendFinished \<lparr>token = JStr ''A'', payload = p0\<rparr> 100000,
      SendStarted \<lparr>token = JStr ''A'', payload = p0\<rparr> (expo_body (JStr ''A'') p0) 100000] \<and>
   \<not> (100000 + (MIN_INTERVAL_MS cfg0 + STAGGER_MS cfg0) \<le> (120000::int)) \<and>
   \<not> spaced (MIN_INTERVAL_MS cfg0 + STAGGER_MS cfg0) (trace (run cfg0 two_tokens (init 100000)))"
  by (simp add: trace_two_tokens) (simp add: cfg0_def)

text \<open>
  C5, amended.  After a send from which \<open>sendToExpo\<close> returns normally, with the
  queue non-empty, a positive stagger and both intervals at most \<open>2^31 - 1\<close> ms, the
  worker suspends on a timer due \<open>STAGGER_MS\<close> later and does nothing before that.
  When the timer fires, \<open>d\<close> after the send was completed, the wait for the next
  item is computed from the clock at that moment: if \<open>d\<close> is below
  \<open>MIN_INTERVAL_MS\<close> the worker suspends until \<open>MIN_INTERVAL_MS\<close> after the
  completion, otherwise it sends at once.  The stagger thus counts toward the minimum
  interval; the next send starts \<open>max(STAGGER_MS, MIN_INTERVAL_MS)\<close> after the
  completion at the earliest.
\<close>

theorem stagger_then_interval:
  assumes ws: "workers st = [AwaitSend it]" and q: "queue st = nxt # rest"
    and sg: "0 < STAGGER_MS cfg" and sb: "STAGGER_MS cfg \<le> 2147483647"
    and mb: "MIN_INTERVAL_MS cfg \<le> 2147483647"
    and ok: "sendToExpo_settle (token it) out = Inr lines"
  shows "workers (fetch_settled cfg 0 out st) = [AwaitStagger (clock st + STAGGER_MS cfg)] \<and>
     lastSent (fetch_settled cfg 0 out st) = clock st \<and>
     queue (fetch_settled cfg 0 out st) = nxt # rest \<and>
     trace (fetch_settled cfg 0 out st) = SendFinished it (clock st) # trace st \<and>
     (int d < STAGGER_MS cfg \<longrightarrow>
        timer_fired cfg 0 (step cfg (fetch_settled cfg 0 out st) (Tick d)) =
          step cfg (fetch_settled cfg 0 out st) (Tick d)) \<and>
     (STAGGER_MS cfg \<le> int d \<and> int d < MIN_INTERVAL_MS cfg \<longrightarrow>
        workers (timer_fired cfg 0 (step cfg (fetch_settled cfg 0 out st) (Tick d))) =
          [AwaitInterval nxt (clock st + MIN_INTERVAL_MS cfg)] \<and>
        trace (timer_fired cfg 0 (step cfg (fetch_settled cfg 0 out st) (Tick d))) =
          SendFinished it (clock st) # trace st) \<and>
     (STAGGER_MS cfg \<le> int d \<and> MIN_INTERVAL_MS cfg \<le> int d \<longrightarrow>
        trace (timer_fired cfg 0 (step cfg (fetch_settled cfg 0 out st) (Tick d))) =
          SendStarted nxt (expo_body (token nxt) (payload nxt)) (clock st + int d)
            # SendFinished it (clock st) # trace st)"
proof -
  let ?s1 = "fetch_settled cfg 0 out st"
  from sg sb have dl: "delay (clock st) (STAGGER_MS cfg) = clock st + STAGGER_MS cfg"
    by (simp add: delay_def)
  have s1: "?s1 = st\<lparr>trace := SendFinished it (clock st) # trace st,
                    console := rev lines @ console st, lastSent := clock st,
                    workers := [AwaitStagger (clock st + STAGGER_MS cfg)]\<rparr>"
    using ws q sg ok dl by (simp add: fetch_settled_def after_send_def Let_def)
  have a: "workers ?s1 = [AwaitStagger (clock st + STAGGER_MS cfg)] \<and>
     lastSent ?s1 = clock st \<and> queue ?s1 = nxt # rest \<and>
     trace ?s1 = SendFinished it (clock st) # trace st"
    unfolding s1 using q by simp
  have b: "int d < STAGGER_MS cfg \<longrightarrow>
        timer_fired cfg 0 (step cfg ?s1 (Tick d)) = step cfg ?s1 (Tick d)"
    unfolding s1 by (simp add: timer_fired_def)
  have c: "STAGGER_MS cfg \<le> int d \<and> int d < MIN_INTERVAL_MS cfg \<longrightarrow>
        workers (timer_fired cfg 0 (step cfg ?s1 (Tick d))) =
          [AwaitInterval nxt (clock st + MIN_INTERVAL_MS cfg)] \<and>
        trace (timer_fired cfg 0 (step cfg ?s1 (Tick d))) = SendFinished it (clock st) # trace st"
    unfolding s1 using q mb
    by (simp add: timer_fired_def drain_def waitMs_def Let_def delay_def)
  have e: "STAGGER_MS cfg \<le> int d \<and> MIN_INTERVAL_MS cfg \<le> int d \<longrightarrow>
        trace (timer_fired cfg 0 (step cfg ?s1 (Tick d))) =
          SendStarted nxt (expo_body (token nxt) (payload nxt)) (clock st + int d)
            # SendFinished it (clock st) # trace st"
    unfolding s1 using q
    by (simp add: timer_fired_def drain_def waitMs_def Let_def sendToExpo_begin_def)
  from a b c e show ?thesis by blast
qed

theorem stagger_then_interval_witness:
  "workers draining = [AwaitSend \<lparr>token = JStr ''A'', payload = p0\<rparr>] \<and>
   queue draining = [\<lparr>token = JStr ''B'', payload = p0\<rparr>] \<and>
   0 < STAGGER_MS cfg0 \<and> STAGGER_MS cfg0 \<le> 2147483647 \<and> MIN_INTERVAL_MS cfg0 \<le> 2147483647 \<and>
   sendToExpo_settle (token \<lparr>token = JStr ''A'', payload = p0\<rparr>) (Responded 200 ''ok'') =
     Inr [ExpoResponse 200 ''A'', BodyLine ''ok''] \<and>
   int 1000 < STAGGER_MS cfg0 \<and>
   timer_fired cfg0 0
      (step cfg0 (fetch_settled cfg0 0 (Responded 200 ''ok'') draining) (Tick 1000)) =
     step cfg0 (fetch_settled cfg0 0 (Responded 200 ''ok'') draining) (Tick 1000) \<and>
   STAGGER_MS cfg0 \<le> int 3000 \<and> int 3000 < MIN_INTERVAL_MS cfg0 \<and>
   workers (timer_fired cfg0 0
      (step cfg0 (fetch_settled cfg0 0 (Responded 200 ''ok'') draining) (Tick 3000))) =
     [AwaitInterval \<lparr>token = JStr ''B'', payload = p0\<rparr> (clock draining + MIN_INTERVAL_MS cfg0)] \<and>
   STAGGER_MS cfg0 \<le> int 25000 \<and> MIN_INTERVAL_MS cfg0 \<le> int 25000 \<and>
   trace (timer_fired cfg0 0
      (step cfg0 (fetch_settled cfg0 0 (Responded 200 ''ok'') draining) (Tick 25000))) =
     SendStarted \<lparr>token = JStr ''B'', payload = p0\<rparr> (expo_body (JStr ''B'') p0)
       (clock draining + int 25000)
     # SendFinished \<lparr>token = JStr ''A'', payload = p0\<rparr> (clock draining) # trace draining"
proof -
  have ws: "workers draining = [AwaitSend \<lparr>token = JStr ''A'', payload = p0\<rparr>]"
    and q: "queue draining = \<lparr>token = JStr ''B'', payload = p0\<rparr> # []"
    by (simp_all add: draining_eq)
  have sg: "0 < STAGGER_MS cfg0" and sb: "STAGGER_MS cfg0 \<le> 2147483647"
    and mb: "MIN_INTERVAL_MS cfg0 \<le> 2147483647" by (simp_all add: cfg0_def)
  have ok: "sendToExpo_settle (token \<lparr>token = JStr ''A'', payload = p0\<rparr>) (Responded 200 ''ok'') =
     Inr [ExpoResponse 200 ''A'', BodyLine ''ok'']"
    by (simp add: sendToExpo_settle_def)
  from stagger_then_interval[OF ws q sg sb mb ok, of 1000]
    stagger_then_interval[OF ws q sg sb mb ok, of 3000]
    stagger_then_interval[OF ws q sg sb mb ok, of 25000] ws q sg sb mb ok
  show ?thesis by (simp add: cfg0_def)
qed

text \<open>
  C1, as the specification states it, fails for a minimum interval above
  \<open>2^31 - 1\<close> ms, which \<open>setTimeout\<close> runs as 1 ms: with \<open>MIN_INTERVAL_MS\<close> set
  to 3000000000 and the default stagger, the second token of a batch is sent 3001 ms
  after the first send was completed.
\<close>

theorem long_interval_counterexample:
  "trace (run long_interval two_tokens_early (init 1700000000000)) =
     [SendStarted \<lparr>token = JStr ''B'', payload = p0\<rparr> (expo_body (JStr ''B'') p0) 1700000003001,
      SendFinished \<lparr>token = JStr ''A'', payload = p0\<rparr> 1700000000000,
      SendStarted \<lparr>token = JStr ''A'', payload = p0\<rparr> (expo_body (JStr ''A'') p0) 1700000000000] \<and>
   \<not> (1700000000000 + MIN_INTERVAL_MS long_interval \<le> (1700000003001::int)) \<and>
   \<not> spaced (MIN_INTERVAL_MS long_interval) (trace (run long_interval two_tokens_early (init 1700000000000)))"
  by (simp add: trace_two_tokens_early) (simp add: long_interval_def)

text \<open>
  C1, amended.  The worker computes \<open>wait = max(0, lastSent + MIN_INTERVAL_MS - now)\<close>
  and, when it is positive, suspends on \<open>delay(wait)\<close> before it sends.  When
  \<open>MIN_INTERVAL_MS\<close> is at most \<open>2^31 - 1 = 2147483647\<close> ms, the timer is due
  \<open>wait\<close> later, and in every reachable state the trace of sends is spaced: sends
  never overlap, and each send after the first starts at least \<open>MIN_INTERVAL_MS\<close>
  after the send before it was completed, whichever requests the items came from.
\<close>

theorem min_interval_between_sends:
  assumes bound: "MIN_INTERVAL_MS cfg \<le> 2147483647"
  shows "waitMs cfg st = max 0 (lastSent st + MIN_INTERVAL_MS cfg - clock st) \<and>
   drain cfg (st\<lparr>queue := it # rest\<rparr>) =
     (if 0 < waitMs cfg st
      then (Some (AwaitInterval it (delay (clock st) (waitMs cfg st))), st\<lparr>queue := rest\<rparr>)
      else (Some (AwaitSend it), sendToExpo_begin it (st\<lparr>queue := rest\<rparr>))) \<and>
   (0 < waitMs cfg st \<and> lastSent st \<le> clock st \<longrightarrow>
      delay (clock st) (waitMs cfg st) = clock st + waitMs cfg st) \<and>
   spaced (MIN_INTERVAL_MS cfg) (trace (run cfg evs (init now))) \<and>
   (trace (run cfg evs (init now)) = pre @ SendStarted it2 b s # SendFinished it1 c # post
      \<longrightarrow> c + MIN_INTERVAL_MS cfg \<le> s)"
proof -
  have sp: "spaced (MIN_INTERVAL_MS cfg) (trace (run cfg evs (init now)))"
    using timed_reachable[OF bound, of evs now] by (simp add: timed_def)
  have dr: "drain cfg (st\<lparr>queue := it # rest\<rparr>) =
     (if 0 < waitMs cfg st
      then (Some (AwaitInterval it (delay (clock st) (waitMs cfg st))), st\<lparr>queue := rest\<rparr>)
      else (Some (AwaitSend it), sendToExpo_begin it (st\<lparr>queue := rest\<rparr>)))"
    by (simp add: drain_def)
  have de: "0 < waitMs cfg st \<and> lastSent st \<le> clock st \<longrightarrow>
      delay (clock st) (waitMs cfg st) = clock st + waitMs cfg st"
    using bound by (auto simp: waitMs_def delay_def)
  from sp dr de show ?thesis by (auto simp: waitMs_def dest: spaced_gap)
qed

theorem min_interval_between_sends_witness:
  "MIN_INTERVAL_MS cfg0 \<le> 2147483647 \<and>
   0 < waitMs cfg0 (init 5) \<and> lastSent (init 5) \<le> clock (init 5) \<and>
   delay (clock (init 5)) (waitMs cfg0 (init 5)) = clock (init 5) + waitMs cfg0 (init 5) \<and>
   trace (run cfg0 two_tokens (init 100000)) =
     [] @ SendStarted \<lparr>token = JStr ''B'', payload = p0\<rparr> (expo_body (JStr ''B'') p0) 120000
        # SendFinished \<lparr>token = JStr ''A'', payload = p0\<rparr> 100000
        # [SendStarted \<lparr>token = JStr ''A'', payload = p0\<rparr> (expo_body (JStr ''A'') p0) 100000]
   \<and> (100000::int) + MIN_INTERVAL_MS cfg0 \<le> 120000"
proof -
  have b: "MIN_INTERVAL_MS cfg0 \<le> 2147483647" by (simp add: cfg0_def)
  have w: "0 < waitMs cfg0 (init 5) \<and> lastSent (init 5) \<le> clock (init 5)"
    by (simp add: waitMs_def cfg0_def init_def)
  from min_interval_between_sends[OF b, of "init 5" "\<lparr>token = JStr ''B'', payload = p0\<rparr>" "[]"
      two_tokens 100000 "[]" "\<lparr>token = JStr ''B'', payload = p0\<rparr>" "expo_body (JStr ''B'') p0"
      120000 "\<lparr>token = JStr ''A'', payload = p0\<rparr>" 100000
      "[SendStarted \<lparr>token = JStr ''A'', payload = p0\<rparr> (expo_body (JStr ''A'') p0) 100000]"] b w
  show ?thesis by (simp add: trace_two_tokens) (simp add: waitMs_def cfg0_def init_def delay_def)
qed

text \<open>
  C4, as the specification states it, fails: the request
  \<open>{"to":["A","","B"],"title":"t","body":"b"}\<close> is accepted, its \<open>to\<close> field has
  three entries, the response is \<open>202 {queued: 2}\<close> and only \<open>A\<close> and \<open>B\<close> are
  enqueued; the empty entry is dropped and not reported.
\<close>

theorem falsy_entry_counterexample:
  "example_parse text_three_entry = Inr three_entry_body \<and>
   get_prop three_entry_body ''to'' = Inr (JArr [JStr ''A'', JStr [], JStr ''B'']) \<and>
   length [JStr ''A'', JStr [], JStr ''B''] = 3 \<and>
   server cfg0 example_parse example_pathname (push_request [text_three_entry]) (init 100000) =
     Inr (Some (202, JObj [(''queued'', JNum 2)]),
          enqueue cfg0 [JStr ''A'', JStr ''B''] p0 (init 100000)) \<and>
   attempts (enqueue cfg0 [JStr ''A'', JStr ''B''] p0 (init 100000)) @
     pending (enqueue cfg0 [JStr ''A'', JStr ''B''] p0 (init 100000)) =
     [\<lparr>token = JStr ''A'', payload = p0\<rparr>, \<lparr>token = JStr ''B'', payload = p0\<rparr>]"
proof -
  have "server cfg0 example_parse example_pathname (push_request [text_three_entry]) (init 100000) =
     Inr (Some (202, JObj [(''queued'', JNum 2)]),
          enqueue cfg0 [JStr ''A'', JStr ''B''] p0 (init 100000))"
    using example_server[of text_three_entry three_entry_body cfg0 "init 100000"]
    by (simp add: example_texts example_parses example_nonempty push_three_entries)
  moreover have "attempts (enqueue cfg0 [JStr ''A'', JStr ''B''] p0 (init 100000)) @
     pending (enqueue cfg0 [JStr ''A'', JStr ''B''] p0 (init 100000)) =
     [\<lparr>token = JStr ''A'', payload = p0\<rparr>, \<lparr>token = JStr ''B'', payload = p0\<rparr>]"
    using draining_eq by (simp add: draining_def run_def attempts_def pending_def)
  ultimately show ?thesis
    by (simp add: example_parses) (simp add: three_entry_body_def)
qed

text \<open>
  C4, amended.  \<open>enqueue\<close> pushes one item per token it is given, in order, at the
  tail of the queue and then calls \<open>processQueue\<close>; in every reachable state the
  items sent so far, the item held by the worker and the queue are together exactly
  the items submitted so far followed by the new ones.  A request is answered 202 only
  when \<open>JSON.parse\<close> of its body returned a value \<open>b\<close>; the tokens handed to
  \<open>enqueue\<close> are \<open>normalizeTokens(b.to)\<close>, that is the truthy entries of \<open>to\<close>
  when it is an array and \<open>to\<close> itself otherwise, and the \<open>queued\<close> count of the
  response is their number.
\<close>

theorem enqueue_appends_kept_tokens:
  "queue (push_all tokens p st) = queue st @ map (\<lambda>t. \<lparr>token = t, payload = p\<rparr>) tokens \<and>
   enqueue cfg tokens p st = processQueue cfg (push_all tokens p st) \<and>
   attempts (enqueue cfg tokens p (run cfg evs (init now))) @
     pending (enqueue cfg tokens p (run cfg evs (init now))) =
     concat (map submitted evs) @ map (\<lambda>t. \<lparr>token = t, payload = p\<rparr>) tokens \<and>
   (server cfg JSON_parse URL_pathname req st = Inr (Some (202, obj), st') \<longrightarrow>
      (\<exists>b to p'. JSON_parse (concat (req_chunks req)) = Inr b \<and>
         get_prop b ''to'' = Inr to \<and> build_payload b = Inr p' \<and>
         obj = JObj [(''queued'', JNum (int (length (normalizeTokens to))))] \<and>
         st' = enqueue cfg (normalizeTokens to) p' st)) \<and>
   normalizeTokens (JArr xs) = filter truthy xs \<and>
   normalizeTokens (JStr (c # s)) = [JStr (c # s)]"
proof -
  have a: "queue (push_all tokens p st) = queue st @ map (\<lambda>t. \<lparr>token = t, payload = p\<rparr>) tokens"
    by (simp add: push_all_def)
  have b: "enqueue cfg tokens p st = processQueue cfg (push_all tokens p st)"
    by (simp add: enqueue_def)
  have c: "attempts (enqueue cfg tokens p (run cfg evs (init now))) @
     pending (enqueue cfg tokens p (run cfg evs (init now))) =
     concat (map submitted evs) @ map (\<lambda>t. \<lparr>token = t, payload = p\<rparr>) tokens"
    using conserve_enqueue[OF shape_reachable, of cfg tokens p cfg evs now]
      fifo_conservation[of cfg evs now]
    by simp
  have d: "server cfg JSON_parse URL_pathname req st = Inr (Some (202, obj), st') \<longrightarrow>
      (\<exists>b to p'. JSON_parse (concat (req_chunks req)) = Inr b \<and>
         get_prop b ''to'' = Inr to \<and> build_payload b = Inr p' \<and>
         obj = JObj [(''queued'', JNum (int (length (normalizeTokens to))))] \<and>
         st' = enqueue cfg (normalizeTokens to) p' st)"
    using server_202[of cfg JSON_parse URL_pathname req st obj st'] by blast
  from a b c d show ?thesis by (simp add: normalizeTokens_def)
qed

theorem enqueue_appends_kept_tokens_witness:
  "server cfg0 example_parse example_pathname (push_request [text_two_token]) (init 100000) =
     Inr (Some (202, JObj [(''queued'', JNum 2)]),
          enqueue cfg0 [JStr ''A'', JStr ''B''] p0 (init 100000)) \<and>
   example_parse (concat (req_chunks (push_request [text_two_token]))) = Inr two_token_body \<and>
   normalizeTokens (JArr [JStr ''A'', JNull, JStr ''B'']) = [JStr ''A'', JStr ''B'']"
proof -
  have s: "server cfg0 example_parse example_pathname (push_request [text_two_token]) (init 100000) =
     Inr (Some (202, JObj [(''queued'', JNum 2)]),
          enqueue cfg0 [JStr ''A'', JStr ''B''] p0 (init 100000))"
    using example_server[of text_two_token two_token_body cfg0 "init 100000"]
    by (simp add: example_texts example_parses example_nonempty push_two_tokens sendJson_def)
  from enqueue_appends_kept_tokens[of "[]" p0 "init 100000" cfg0 "[]" 0 example_parse
      example_pathname "push_request [text_two_token]" "JObj [(''queued'', JNum 2)]"
      "enqueue cfg0 [JStr ''A'', JStr ''B''] p0 (init 100000)" "[JStr ''A'', JNull, JStr ''B'']"] s
  show ?thesis by (simp add: example_push_request example_parses)
qed



text \<open>
  C9, as the specification states it, fails.  The size check counts the UTF-16 code
  units of the decoded text, not bytes: a \<open>POST /push\<close> body of 18043 bytes
  whose text has 6043 code units passes the \<open>data\<close> listener, the request is not
  destroyed, the text goes on to \<open>JSON.parse\<close> and the request is answered 202.
  And the body is read on \<open>POST /push\<close> only: a \<open>GET /health\<close> request
  with a body of 16385 bytes is answered 200.
\<close>

theorem multibyte_body_counterexample:
  "16 * 1024 < byte_size [cjk_body] \<and>
   foldl on_data (Reading []) [cjk_body] = Reading cjk_body \<and>
   parseBody example_parse [cjk_body] = (Inr cjk_parsed, False) \<and>
   server cfg0 example_parse example_pathname (push_request [cjk_body]) (init 100000) =
     Inr (Some (202, JObj [(''queued'', JNum 1)]), enqueue cfg0 [JStr ''X''] p0 (init 100000)) \<and>
   16 * 1024 < byte_size [ascii_body] \<and>
   server cfg0 example_parse example_pathname (health_request [ascii_body]) (init 100000) =
     Inr (Some (200, JObj [(''status'', JStr ''ok''), (''queued'', JNum 0)]), init 100000)"
proof -
  have l: "js_length cjk_body \<le> 1024 * 16" by (simp add: cjk_sizes)
  have r: "foldl on_data (Reading []) [cjk_body] = Reading cjk_body"
    using l by simp
  have p: "parseBody example_parse [cjk_body] = (Inr cjk_parsed, False)"
    using parseBody_accepts[of "[cjk_body]" example_parse]
    by (simp add: cjk_sizes example_parse_cjk)
  have s: "server cfg0 example_parse example_pathname (push_request [cjk_body]) (init 100000) =
     Inr (Some (202, JObj [(''queued'', JNum 1)]), enqueue cfg0 [JStr ''X''] p0 (init 100000))"
    using example_server[of cjk_body cjk_parsed cfg0 "init 100000"]
    by (simp add: cjk_sizes example_parse_cjk push_cjk)
  have a: "16 * 1024 < byte_size [ascii_body]"
    by (simp add: ascii_body_def byte_size_def utf8_bytes_def sum_list_replicate)
  have h: "server cfg0 example_parse example_pathname (health_request [ascii_body]) (init 100000) =
     Inr (Some (200, JObj [(''status'', JStr ''ok''), (''queued'', JNum 0)]), init 100000)"
    by (simp add: health_ignores_body) (simp add: init_def)
  from r p s a h show ?thesis by (simp add: cjk_sizes)
qed

text \<open>
  C9, amended.  For a \<open>POST\<close> request whose target has the path \<open>/push\<close> and
  whose body, decoded, is longer than 16384 UTF-16 code units (as is every all-ASCII
  body of more than 16 KiB), \<open>parseBody\<close> rejects with \<open>Payload too large\<close> and
  destroys the request whatever \<open>JSON.parse\<close> would do (it is not called); the
  rejection is caught by the handler, the listener returns, and the queue state is
  left as it was.
\<close>

theorem oversized_text_rejected:
  assumes m: "req_method req = ''POST''"
    and u: "URL_pathname (req_url req) (''http://'' @ req_host req) = Inr ''/push''"
    and big: "16 * 1024 < js_length (concat (req_chunks req)) \<or>
      list_all (\<lambda>c. c < 0x80) (concat (req_chunks req)) \<and> 16 * 1024 < byte_size (req_chunks req)"
  shows "parseBody JSON_parse (req_chunks req) = (Inl (Error ''Payload too large''), True) \<and>
   (case server cfg JSON_parse URL_pathname req st of
      Inl e \<Rightarrow> False
    | Inr (resp, st') \<Rightarrow>
        st' = st\<lparr>console := HandleFailed (Error ''Payload too large'') # console st\<rparr>)"
proof -
  have l: "1024 * 16 < js_length (concat (req_chunks req))"
  proof (cases "16 * 1024 < js_length (concat (req_chunks req))")
    case True
    then show ?thesis by simp
  next
    case False
    with big have "list_all (\<lambda>c. c < 0x80) (concat (req_chunks req))"
      "16 * 1024 < byte_size (req_chunks req)"
      by blast+
    with ascii_sizes[of "concat (req_chunks req)"] show ?thesis by (simp add: byte_size_def)
  qed
  from parseBody_rejects[OF l]
    server_push[where URL_pathname = URL_pathname and req = req, OF m u, of cfg JSON_parse st]
    push_handler_oversized[OF l, of cfg JSON_parse st]
  show ?thesis by simp
qed

theorem oversized_text_rejected_witness:
  "req_method (push_request [ascii_body]) = ''POST'' \<and>
   list_all (\<lambda>c. c < 0x80) (concat (req_chunks (push_request [ascii_body]))) \<and>
   16 * 1024 < byte_size (req_chunks (push_request [ascii_body])) \<and>
   parseBody example_parse (req_chunks (push_request [ascii_body])) =
     (Inl (Error ''Payload too large''), True)"
proof -
  have a: "list_all (\<lambda>c. c < 0x80) (concat (req_chunks (push_request [ascii_body])))"
    by (simp add: example_push_request ascii_body_def list_all_iff)
  have b: "16 * 1024 < byte_size (req_chunks (push_request [ascii_body]))"
    by (simp add: example_push_request ascii_body_def byte_size_def utf8_bytes_def
        sum_list_replicate)
  have r: "req_method (push_request [ascii_body]) = ''POST''"
    "example_pathname (req_url (push_request [ascii_body]))
        (''http://'' @ req_host (push_request [ascii_body])) = Inr ''/push''"
    by (simp_all add: push_request_def example_pathname_def)
  from a b have c: "16 * 1024 < js_length (concat (req_chunks (push_request [ascii_body]))) \<or>
      list_all (\<lambda>c. c < 0x80) (concat (req_chunks (push_request [ascii_body]))) \<and>
      16 * 1024 < byte_size (req_chunks (push_request [ascii_body]))" by blast
  from oversized_text_rejected[where URL_pathname = example_pathname
      and req = "push_request [ascii_body]" and JSON_parse = example_parse and cfg = cfg0
      and st = "init 100000", OF r(1) r(2) c] a b r
  show ?thesis by simp
qed
end
